theory Spec2Isabelle
  imports Main "HOL-Library.Word" "HOL-Library.Multiset"
begin

section \<open>The in-memory wallet of the dcrtest harness\<close>

text \<open>
  A shallow embedding of package \<open>memwallet\<close>: the wallet's unspent-output ledger, its
  undo journal, the queue of chain updates with its single consumer, address issuance and
  the read operations.

  Go's mutexes, the goroutines and the signal channel are not part of the state. Every
  function below is one critical section of the source; the messages the consumer
  receives on its channel are an argument of \<open>chainSyncer\<close>.

  The ledger and the journal hold pointers to \<open>utxo\<close> structs. A pointer is moved from the
  ledger into an undo entry (\<open>evalInputs\<close>) and back (\<open>UnwindBlock\<close>), and is never held by
  two live places at once, so the records are modelled as values.
\<close>

subsection \<open>Data\<close>

type_synonym bytes = "8 word list"
type_synonym uint32 = "32 word"
type_synonym int64 = "64 word"

text \<open>Go's \<open>error\<close> values are opaque; the model keeps the message.\<close>

type_synonym error = string

text \<open>
  A goroutine that panics: with the error of a failed decoding (\<open>panic(err)\<close>), or one of
  the two run-time panics the code can raise, reading a field through a nil pointer and
  indexing an empty slice.
\<close>

datatype panic = Panic error | NilPointerDereference | IndexOutOfRange

text \<open>
  The types of \<open>coinharness\<close>, \<open>wire\<close> and \<open>dcrutil\<close> with the fields the wallet reads.
  A hash is its bytes; amounts are \<open>int64\<close>. Field \<open>TxOut\<close> of a transaction is \<open>TxOuts\<close>
  here, and field \<open>Amount\<close> of \<open>Unspent\<close> is \<open>UnspentAmount\<close>.
\<close>

type_synonym Hash = bytes

record OutPoint =
  Hash :: Hash
  Index :: uint32

record CoinsAmount =
  AtomsValue :: int64

record TxOut =
  PkScript :: bytes
  Amount :: CoinsAmount

record InputTx =
  PreviousOutPoint :: OutPoint

record MessageTx =
  TxHash :: Hash
  TxOuts :: "TxOut list"
  TxIn :: "InputTx list"

record Tx =
  MsgTx :: MessageTx

record BlockHeader =
  Height :: uint32

record Address =
  ScriptAddress :: bytes

text \<open>
  \<open>net.CoinbaseMaturity()\<close> as the wallet uses it, converted to \<open>int64\<close>.
\<close>

record Network =
  CoinbaseMaturity :: int64

record Unspent =
  Account :: string
  UnspentAmount :: CoinsAmount

record GetBalanceResult =
  TotalSpendable :: CoinsAmount

text \<open>
  The structs of the package that are declared outside the two source files, with the
  fields the code reads and writes: \<open>utxo\<close>, \<open>undoEntry\<close> and \<open>chainUpdate\<close>.
  Field \<open>value\<close> of \<open>utxo\<close> is \<open>value'\<close> here.
\<close>

record utxo =
  value' :: CoinsAmount
  keyIndex :: uint32
  maturityHeight :: int64
  pkScript :: bytes
  isLocked :: bool

record undoEntry =
  utxosDestroyed :: "OutPoint \<rightharpoonup> utxo"
  utxosCreated :: "OutPoint list"

record chainUpdate =
  blockHeight :: int64
  filteredTxns :: "Tx list"

type_synonym ExtendedKey = bytes
type_synonym PrivateKey = bytes

text \<open>
  The wallet. \<open>coinbaseKey\<close>, \<open>coinbaseAddr\<close>, \<open>nodeRPC\<close> and \<open>RPCClientFactory\<close> are read
  or written by none of the functions modelled here and are left out, as are the two
  mutexes and the channel.
\<close>

record InMemoryWallet =
  hdRoot :: ExtendedKey
  hdIndex :: uint32
  currentHeight :: int64
  addrs :: "uint32 \<rightharpoonup> Address"
  utxos :: "OutPoint \<rightharpoonup> utxo"
  reorgJournal :: "int64 \<rightharpoonup> undoEntry"
  chainUpdates :: "chainUpdate list"
  net :: Network
  NewTxFromBytes :: "bytes \<Rightarrow> error + Tx"
  IsCoinBaseTx :: "MessageTx \<Rightarrow> bool"

text \<open>
  The library calls whose results the wallet acts on: \<open>hdkeychain\<close>'s \<open>Child\<close> and
  \<open>ECPrivKey\<close>, the package's \<open>keyToAddr\<close>, the node's \<open>LoadTxFilter\<close> (\<open>None\<close> is Go's
  \<open>nil\<close> error) and \<open>wire.BlockHeader.FromBytes\<close>. They are parameters of the model.
\<close>

record externals =
  Child :: "ExtendedKey \<Rightarrow> uint32 \<Rightarrow> error + ExtendedKey"
  ECPrivKey :: "ExtendedKey \<Rightarrow> error + PrivateKey"
  keyToAddr :: "PrivateKey \<Rightarrow> Network \<Rightarrow> error + Address"
  LoadTxFilter :: "bool \<Rightarrow> Address list \<Rightarrow> error option"
  FromBytes :: "bytes \<Rightarrow> error + BlockHeader"

text \<open>
  The channel carries strings. The consumer only compares a message with \<open>stopSignal\<close>;
  the two constants are declared outside the source files, so a message is one of the two
  or any other string.
\<close>

datatype signal = stopSignal | chainUpdateSignal | otherSignal string

text \<open>
  Go enumerates a map in an order of the runtime's choosing, anew for every \<open>range\<close>
  loop. The order is an argument of the model: a list of keys, of which those that are
  not in the map are passed over. The orders Go can choose for a map \<open>m\<close> are the lists
  \<open>ks\<close> with \<open>distinct ks\<close> and \<open>set ks = dom m\<close>.

  A \<open>sched\<close> gives the order over \<open>addrs\<close> for the loop that \<open>evalOutputs\<close> runs for
  output \<open>i\<close> of transaction \<open>t\<close> of an update.
\<close>

type_synonym sched = "nat \<Rightarrow> nat \<Rightarrow> uint32 list"

subsection \<open>Applying a block\<close>

text \<open>\<open>bytes.Contains(b, subslice)\<close>: \<open>subslice\<close> occurs in \<open>b\<close> as a contiguous run.\<close>

fun hasPrefix :: "bytes \<Rightarrow> bytes \<Rightarrow> bool" where
  "hasPrefix b [] = True"
| "hasPrefix [] (y # ys) = False"
| "hasPrefix (x # xs) (y # ys) = (x = y \<and> hasPrefix xs ys)"

fun Contains :: "bytes \<Rightarrow> bytes \<Rightarrow> bool" where
  "Contains [] subslice = (subslice = [])"
| "Contains (x # xs) subslice = (hasPrefix (x # xs) subslice \<or> Contains xs subslice)"

text \<open>
  The inner loop of \<open>evalOutputs\<close> for output \<open>i\<close>, over the addresses in the order \<open>ks\<close>.
  \<open>k\<close> is the source's \<open>keyIndex\<close>, \<open>maturity\<close> its \<open>maturityHeight\<close>; the utxo's
  \<open>isLocked\<close> is Go's zero value.
\<close>

fun evalOutput ::
  "TxOut \<Rightarrow> nat \<Rightarrow> Hash \<Rightarrow> bool \<Rightarrow> uint32 list \<Rightarrow> InMemoryWallet \<times> undoEntry
    \<Rightarrow> InMemoryWallet \<times> undoEntry" where
  "evalOutput output i txHash isCoinbase [] (wallet, undo) = (wallet, undo)"
| "evalOutput output i txHash isCoinbase (k # ks) (wallet, undo) =
     (case addrs wallet k of
        None \<Rightarrow> evalOutput output i txHash isCoinbase ks (wallet, undo)
      | Some addr \<Rightarrow>
          if \<not> Contains (PkScript output) (ScriptAddress addr)
          then evalOutput output i txHash isCoinbase ks (wallet, undo)
          else
            let maturity =
                  (if isCoinbase then currentHeight wallet + CoinbaseMaturity (net wallet)
                   else 0);
                op = \<lparr>Hash = txHash, Index = of_nat i\<rparr>;
                wallet' = wallet\<lparr>utxos := (utxos wallet)(op \<mapsto>
                  \<lparr>value' = Amount output, keyIndex = k,
                   maturityHeight = maturity, pkScript = PkScript output,
                   isLocked = False\<rparr>)\<rparr>;
                undo' = undo\<lparr>utxosCreated := utxosCreated undo @ [op]\<rparr>
            in evalOutput output i txHash isCoinbase ks (wallet', undo'))"

text \<open>
  \<open>evalOutputs\<close>: the outer loop, \<open>i\<close> the index of the first output of the list, \<open>ord i\<close>
  the order over \<open>addrs\<close> for output \<open>i\<close>.
\<close>

fun evalOutputsFrom ::
  "nat \<Rightarrow> (nat \<Rightarrow> uint32 list) \<Rightarrow> TxOut list \<Rightarrow> Hash \<Rightarrow> bool
    \<Rightarrow> InMemoryWallet \<times> undoEntry \<Rightarrow> InMemoryWallet \<times> undoEntry" where
  "evalOutputsFrom i ord [] txHash isCoinbase s = s"
| "evalOutputsFrom i ord (output # outputs) txHash isCoinbase s =
     evalOutputsFrom (Suc i) ord outputs txHash isCoinbase
       (evalOutput output i txHash isCoinbase (ord i) s)"

definition evalOutputs ::
  "(nat \<Rightarrow> uint32 list) \<Rightarrow> TxOut list \<Rightarrow> Hash \<Rightarrow> bool
    \<Rightarrow> InMemoryWallet \<times> undoEntry \<Rightarrow> InMemoryWallet \<times> undoEntry" where
  "evalOutputs ord outputs txHash isCoinbase s = evalOutputsFrom 0 ord outputs txHash isCoinbase s"

fun evalInputs ::
  "InputTx list \<Rightarrow> InMemoryWallet \<times> undoEntry \<Rightarrow> InMemoryWallet \<times> undoEntry" where
  "evalInputs [] (wallet, undo) = (wallet, undo)"
| "evalInputs (txIn # inputs) (wallet, undo) =
     (let op = PreviousOutPoint txIn in
      (case utxos wallet op of
         None \<Rightarrow> evalInputs inputs (wallet, undo)
       | Some oldUtxo \<Rightarrow>
           evalInputs inputs
             (wallet\<lparr>utxos := (utxos wallet)(op := None)\<rparr>,
              undo\<lparr>utxosDestroyed := (utxosDestroyed undo)(op \<mapsto> oldUtxo)\<rparr>)))"

text \<open>
  The loop of \<open>chainSyncer\<close> over the transactions of the update, \<open>t\<close> the position of the
  first transaction of the list.
\<close>

fun evalTxnsFrom ::
  "nat \<Rightarrow> sched \<Rightarrow> Tx list \<Rightarrow> InMemoryWallet \<times> undoEntry \<Rightarrow> InMemoryWallet \<times> undoEntry" where
  "evalTxnsFrom t sched [] s = s"
| "evalTxnsFrom t sched (tx # txs) s =
     (let mtx = MsgTx tx;
          isCoinbase = IsCoinBaseTx (fst s) mtx;
          txHash = TxHash mtx
      in evalTxnsFrom (Suc t) sched txs
           (evalInputs (TxIn mtx) (evalOutputs (sched t) (TxOuts mtx) txHash isCoinbase s)))"

text \<open>
  What \<open>chainSyncer\<close> does with an update under the wallet's lock (the body of the
  commented-out \<open>ingestBlock\<close>): it sets the height, evaluates the transactions against a
  fresh undo entry and stores the entry in the journal.
\<close>

definition applyUpdate :: "sched \<Rightarrow> InMemoryWallet \<Rightarrow> chainUpdate \<Rightarrow> InMemoryWallet" where
  "applyUpdate sched wallet update =
     (let wallet1 = wallet\<lparr>currentHeight := blockHeight update\<rparr>;
          undo = \<lparr>utxosDestroyed = Map.empty, utxosCreated = []\<rparr>;
          (wallet2, undo') = evalTxnsFrom 0 sched (filteredTxns update) (wallet1, undo)
      in wallet2\<lparr>reorgJournal := (reorgJournal wallet2)(blockHeight update \<mapsto> undo')\<rparr>)"

text \<open>
  \<open>chainSyncer\<close>, run on the messages it receives, each with the \<open>sched\<close> of that
  iteration. It returns the wallet it leaves when the messages end or \<open>stopSignal\<close>
  arrives. \<open>wallet.chainUpdates[0]\<close> panics on an empty queue.
\<close>

fun chainSyncer :: "InMemoryWallet \<Rightarrow> (signal \<times> sched) list \<Rightarrow> panic + InMemoryWallet" where
  "chainSyncer wallet [] = Inr wallet"
| "chainSyncer wallet ((s, sched) # rest) =
     (if s = stopSignal then Inr wallet
      else case chainUpdates wallet of
        [] \<Rightarrow> Inl IndexOutOfRange
      | update # queue \<Rightarrow>
          chainSyncer (applyUpdate sched (wallet\<lparr>chainUpdates := queue\<rparr>) update) rest)"

subsection \<open>Block notifications\<close>

fun txnsFromBytes :: "(bytes \<Rightarrow> error + Tx) \<Rightarrow> bytes list \<Rightarrow> error + Tx list" where
  "txnsFromBytes newTx [] = Inr []"
| "txnsFromBytes newTx (txBytes # rest) =
     (case newTx txBytes of
        Inl err \<Rightarrow> Inl err
      | Inr tx \<Rightarrow> (case txnsFromBytes newTx rest of Inl err \<Rightarrow> Inl err | Inr txns \<Rightarrow> Inr (tx # txns)))"

text \<open>
  \<open>IngestBlock\<close> in its two parts (\<open>rawTxns\<close> is its argument \<open>filteredTxns\<close>): it
  decodes the header and the transactions, panicking on the first that fails, and it
  appends the update to the queue. The goroutine it starts sends \<open>chainUpdateSignal\<close>;
  the message reaches the model as an argument of \<open>chainSyncer\<close>.
\<close>

definition decodeBlock ::
  "externals \<Rightarrow> InMemoryWallet \<Rightarrow> bytes \<Rightarrow> bytes list \<Rightarrow> panic + chainUpdate" where
  "decodeBlock ext m header rawTxns =
     (case FromBytes ext header of
        Inl err \<Rightarrow> Inl (Panic err)
      | Inr hdr \<Rightarrow>
          let height = (ucast (Height hdr) :: int64) in
          (case txnsFromBytes (NewTxFromBytes m) rawTxns of
             Inl err \<Rightarrow> Inl (Panic err)
           | Inr txns \<Rightarrow> Inr \<lparr>blockHeight = height, filteredTxns = txns\<rparr>))"

definition IngestBlock ::
  "externals \<Rightarrow> InMemoryWallet \<Rightarrow> bytes \<Rightarrow> bytes list \<Rightarrow> panic + InMemoryWallet" where
  "IngestBlock ext m header rawTxns =
     (case decodeBlock ext m header rawTxns of
        Inl p \<Rightarrow> Inl p
      | Inr update \<Rightarrow> Inr (m\<lparr>chainUpdates := chainUpdates m @ [update]\<rparr>))"

text \<open>
  \<open>UnwindBlock\<close>. \<open>m.reorgJournal[height]\<close> is nil for a height without an entry, and
  \<open>undo.utxosCreated\<close> then panics. The second loop assigns each key of \<open>utxosDestroyed\<close>
  once, so its result does not depend on the order of the keys: it is the map
  \<open>utxos ++ utxosDestroyed\<close>.
\<close>

definition UnwindBlock :: "externals \<Rightarrow> InMemoryWallet \<Rightarrow> bytes \<Rightarrow> panic + InMemoryWallet" where
  "UnwindBlock ext m header =
     (case FromBytes ext header of
        Inl err \<Rightarrow> Inl (Panic err)
      | Inr hdr \<Rightarrow>
          let height = (ucast (Height hdr) :: int64) in
          (case reorgJournal m height of
             None \<Rightarrow> Inl NilPointerDereference
           | Some undo \<Rightarrow>
               Inr (m\<lparr>utxos := fold (\<lambda>op us. us(op := None)) (utxosCreated undo) (utxos m)
                               ++ utxosDestroyed undo,
                      reorgJournal := (reorgJournal m)(height := None)\<rparr>)))"

subsection \<open>The queue over time\<close>

text \<open>
  The queue is written under its own mutex, by \<open>IngestBlock\<close> at the tail and by the
  consumer at the head, so a run of the wallet is a sequence of these critical sections:
  a block notification that appends, or the consumer's iteration for one received
  \<open>chainUpdateSignal\<close>. A run describes the wallet up to the arrival of \<open>stopSignal\<close>.
\<close>

datatype event = BlockConnected bytes "bytes list" | UpdateSignal sched

fun step :: "externals \<Rightarrow> InMemoryWallet \<Rightarrow> event \<Rightarrow> panic + InMemoryWallet" where
  "step ext wallet (BlockConnected header rawTxns) = IngestBlock ext wallet header rawTxns"
| "step ext wallet (UpdateSignal sched) = chainSyncer wallet [(chainUpdateSignal, sched)]"

fun run :: "externals \<Rightarrow> InMemoryWallet \<Rightarrow> event list \<Rightarrow> panic + InMemoryWallet" where
  "run ext wallet [] = Inr wallet"
| "run ext wallet (e # es) =
     (case step ext wallet e of
        Inl p \<Rightarrow> Inl p
      | Inr wallet' \<Rightarrow> run ext wallet' es)"

text \<open>The current height after each iteration of the consumer, in the order of the run.\<close>

fun heightsSet :: "externals \<Rightarrow> InMemoryWallet \<Rightarrow> event list \<Rightarrow> int64 list" where
  "heightsSet ext wallet [] = []"
| "heightsSet ext wallet (e # es) =
     (case step ext wallet e of
        Inl p \<Rightarrow> []
      | Inr wallet' \<Rightarrow>
          (case e of
             UpdateSignal sched \<Rightarrow> currentHeight wallet' # heightsSet ext wallet' es
           | BlockConnected header rawTxns \<Rightarrow> heightsSet ext wallet' es))"

text \<open>The updates of the block notifications of a run, in the order of the run.\<close>

fun enqueued :: "externals \<Rightarrow> InMemoryWallet \<Rightarrow> event list \<Rightarrow> chainUpdate list" where
  "enqueued ext wallet [] = []"
| "enqueued ext wallet (BlockConnected header rawTxns # es) =
     (case decodeBlock ext wallet header rawTxns of
        Inl p \<Rightarrow> enqueued ext wallet es
      | Inr update \<Rightarrow> update # enqueued ext wallet es)"
| "enqueued ext wallet (UpdateSignal sched # es) = enqueued ext wallet es"

text \<open>Every block notification of the run decodes.\<close>

fun decodable :: "externals \<Rightarrow> InMemoryWallet \<Rightarrow> event list \<Rightarrow> bool" where
  "decodable ext wallet [] = True"
| "decodable ext wallet (BlockConnected header rawTxns # es) =
     (case decodeBlock ext wallet header rawTxns of
        Inl p \<Rightarrow> False
      | Inr update \<Rightarrow> decodable ext wallet es)"
| "decodable ext wallet (UpdateSignal sched # es) = decodable ext wallet es"

text \<open>The number of signals the consumer receives in a run.\<close>

fun signals :: "event list \<Rightarrow> nat" where
  "signals [] = 0"
| "signals (BlockConnected header rawTxns # es) = signals es"
| "signals (UpdateSignal sched # es) = Suc (signals es)"

text \<open>
  A signal is sent after its update was appended, so at no point of a run has the
  consumer received more signals than updates were appended: with \<open>q\<close> updates in the
  queue at the start, every signal finds one.
\<close>

fun signalsFollowAppends :: "nat \<Rightarrow> event list \<Rightarrow> bool" where
  "signalsFollowAppends q [] = True"
| "signalsFollowAppends q (BlockConnected header rawTxns # es) = signalsFollowAppends (Suc q) es"
| "signalsFollowAppends q (UpdateSignal sched # es) = (0 < q \<and> signalsFollowAppends (q - 1) es)"

subsection \<open>Issuing addresses\<close>

text \<open>
  \<open>newAddress\<close> returns the address or the error, and the wallet it leaves. \<open>hdIndex++\<close>
  is an addition on \<open>uint32\<close>.
\<close>

definition newAddress :: "externals \<Rightarrow> InMemoryWallet \<Rightarrow> (error + Address) \<times> InMemoryWallet" where
  "newAddress ext wallet =
     (let index = hdIndex wallet in
      case Child ext (hdRoot wallet) index of
        Inl err \<Rightarrow> (Inl err, wallet)
      | Inr childKey \<Rightarrow>
          (case ECPrivKey ext childKey of
             Inl err \<Rightarrow> (Inl err, wallet)
           | Inr privKey \<Rightarrow>
               (case keyToAddr ext privKey (net wallet) of
                  Inl err \<Rightarrow> (Inl err, wallet)
                | Inr addr \<Rightarrow>
                    (case LoadTxFilter ext False [addr] of
                       Some err \<Rightarrow> (Inl err, wallet)
                     | None \<Rightarrow>
                         (Inr addr,
                          wallet\<lparr>addrs := (addrs wallet)(index \<mapsto> addr),
                                 hdIndex := hdIndex wallet + 1\<rparr>)))))"

text \<open>\<open>NewAddress\<close> wraps the address in a \<open>dcrharness.Address\<close>, which holds nothing else.\<close>

definition NewAddress :: "externals \<Rightarrow> InMemoryWallet \<Rightarrow> (error + Address) \<times> InMemoryWallet" where
  "NewAddress ext wallet =
     (case newAddress ext wallet of
        (Inl err, wallet') \<Rightarrow> (Inl err, wallet')
      | (Inr add, wallet') \<Rightarrow> (Inr add, wallet'))"

text \<open>
  A sequence of calls of \<open>NewAddress\<close>, each with the collaborators as they answer
  during the call. The result lists, for the calls that succeed and in their order, the
  index the call assigns (the source's \<open>index\<close>) with the address it returns, and has the
  wallet after the last call.
\<close>

fun NewAddresses ::
  "externals list \<Rightarrow> InMemoryWallet \<Rightarrow> (uint32 \<times> Address) list \<times> InMemoryWallet" where
  "NewAddresses [] wallet = ([], wallet)"
| "NewAddresses (ext # exts) wallet =
     (case NewAddress ext wallet of
        (Inl err, wallet') \<Rightarrow> NewAddresses exts wallet'
      | (Inr addr, wallet') \<Rightarrow>
          (case NewAddresses exts wallet' of
             (issued, wallet'') \<Rightarrow> ((hdIndex wallet, addr) # issued, wallet'')))"

subsection \<open>Reading the ledger\<close>

text \<open>
  Modelled from the spec: method \<open>isMature\<close> of \<open>utxo\<close>, which is declared outside the
  source files. The read operations "exclude any record whose maturity height exceeds
  current height"; both heights are \<open>int64\<close>, compared as signed numbers.
\<close>

definition isMature :: "utxo \<Rightarrow> int64 \<Rightarrow> bool" where
  "isMature u height = (sint (maturityHeight u) \<le> sint height)"

text \<open>
  The two read operations enumerate \<open>utxos\<close> in the order \<open>ks\<close>. They return their result
  and the wallet they leave. Of \<open>ListUnspent\<close> the model has the loop that collects the
  amounts (lines 485 to 495); what follows it in the source file belongs to the
  construction of transactions, which does not compile.
\<close>

fun ListUnspentLoop :: "InMemoryWallet \<Rightarrow> OutPoint list \<Rightarrow> Unspent list \<Rightarrow> Unspent list" where
  "ListUnspentLoop wallet [] result = result"
| "ListUnspentLoop wallet (op # ks) result =
     (case utxos wallet op of
        None \<Rightarrow> ListUnspentLoop wallet ks result
      | Some u \<Rightarrow>
          if \<not> isMature u (currentHeight wallet) \<or> isLocked u
          then ListUnspentLoop wallet ks result
          else ListUnspentLoop wallet ks
                 (result @ [\<lparr>Account = [], UnspentAmount = value' u\<rparr>]))"

definition ListUnspent :: "OutPoint list \<Rightarrow> InMemoryWallet \<Rightarrow> Unspent list \<times> InMemoryWallet" where
  "ListUnspent ks wallet = (ListUnspentLoop wallet ks [], wallet)"

fun GetBalanceLoop :: "InMemoryWallet \<Rightarrow> OutPoint list \<Rightarrow> CoinsAmount \<Rightarrow> CoinsAmount" where
  "GetBalanceLoop wallet [] balance = balance"
| "GetBalanceLoop wallet (op # ks) balance =
     (case utxos wallet op of
        None \<Rightarrow> GetBalanceLoop wallet ks balance
      | Some u \<Rightarrow>
          if \<not> isMature u (currentHeight wallet) \<or> isLocked u
          then GetBalanceLoop wallet ks balance
          else GetBalanceLoop wallet ks
                 (balance\<lparr>AtomsValue := AtomsValue balance + AtomsValue (value' u)\<rparr>))"

definition GetBalance :: "OutPoint list \<Rightarrow> InMemoryWallet \<Rightarrow> GetBalanceResult \<times> InMemoryWallet" where
  "GetBalance ks wallet =
     (\<lparr>TotalSpendable = GetBalanceLoop wallet ks \<lparr>AtomsValue = 0\<rparr>\<rparr>, wallet)"

text \<open>\<open>UnlockOutputs\<close> clears the flag of every input's utxo that the ledger holds.\<close>

fun UnlockOutputs :: "InputTx list \<Rightarrow> InMemoryWallet \<Rightarrow> InMemoryWallet" where
  "UnlockOutputs [] wallet = wallet"
| "UnlockOutputs (input # inputs) wallet =
     (case utxos wallet (PreviousOutPoint input) of
        None \<Rightarrow> UnlockOutputs inputs wallet
      | Some u \<Rightarrow>
          UnlockOutputs inputs
            (wallet\<lparr>utxos := (utxos wallet)(PreviousOutPoint input \<mapsto> u\<lparr>isLocked := False\<rparr>)\<rparr>))"

subsection \<open>Notions used to state the properties\<close>

text \<open>
  The test of \<open>evalOutputs\<close> on the address of index \<open>k\<close>: the wallet owns the index and
  the output's script contains the address's script hash.
\<close>

definition paysTo :: "InMemoryWallet \<Rightarrow> TxOut \<Rightarrow> uint32 \<Rightarrow> bool" where
  "paysTo wallet output k =
     (case addrs wallet k of
        None \<Rightarrow> False
      | Some addr \<Rightarrow> Contains (PkScript output) (ScriptAddress addr))"

text \<open>
  What the record at an outpoint adds to a listing or a balance: its amount when the
  test of the two read loops lets it through, nothing otherwise.
\<close>

definition counted :: "InMemoryWallet \<Rightarrow> OutPoint \<Rightarrow> CoinsAmount option" where
  "counted wallet op =
     (case utxos wallet op of
        None \<Rightarrow> None
      | Some u \<Rightarrow>
          if \<not> isMature u (currentHeight wallet) \<or> isLocked u then None else Some (value' u))"

text \<open>The second wallet is the first with another ledger: no other field differs.\<close>

definition onlyUtxos :: "InMemoryWallet \<Rightarrow> InMemoryWallet \<Rightarrow> bool" where
  "onlyUtxos w w' = (w' = w\<lparr>utxos := utxos w'\<rparr>)"

text \<open>
  The invariant of the evaluation of a block's transactions, with respect to the ledger
  \<open>led\<close> before the block: a destroyed outpoint holds its record of \<open>led\<close> and is out of the
  ledger unless the block created it again, and the ledger agrees with \<open>led\<close> on every
  outpoint that the block has neither destroyed nor created.
\<close>

definition undoInv :: "(OutPoint \<rightharpoonup> utxo) \<Rightarrow> InMemoryWallet \<times> undoEntry \<Rightarrow> bool" where
  "undoInv led s =
     (\<forall>op. case utxosDestroyed (snd s) op of
             None \<Rightarrow> op \<in> set (utxosCreated (snd s)) \<or> utxos (fst s) op = led op
           | Some old \<Rightarrow>
               led op = Some old
               \<and> (op \<in> set (utxosCreated (snd s)) \<or> utxos (fst s) op = None))"

text \<open>
  The outpoint that \<open>evalOutputs\<close> builds for output \<open>i\<close> of a transaction, the outpoints of
  all outputs of a transaction, and the outpoints that its inputs spend.
\<close>

definition outPoint :: "Tx \<Rightarrow> nat \<Rightarrow> OutPoint" where
  "outPoint tx i = \<lparr>Hash = TxHash (MsgTx tx), Index = of_nat i\<rparr>"

definition outPoints :: "Tx \<Rightarrow> OutPoint list" where
  "outPoints tx = map (outPoint tx) [0..<length (TxOuts (MsgTx tx))]"

definition spent :: "Tx \<Rightarrow> OutPoint list" where
  "spent tx = map PreviousOutPoint (TxIn (MsgTx tx))"

subsection \<open>Example values\<close>

text \<open>
  Collaborators that always succeed: a child key is the parent's bytes followed by the
  low byte of the index, an address hashes to its key, and a header is one byte holding
  the height.
\<close>

definition exExt :: externals where
  "exExt =
     \<lparr>Child = (\<lambda>root i. Inr (root @ [ucast i])),
      ECPrivKey = (\<lambda>key. Inr key),
      keyToAddr = (\<lambda>key n. Inr \<lparr>ScriptAddress = key\<rparr>),
      LoadTxFilter = (\<lambda>reload as. None),
      FromBytes = (\<lambda>b. case b of [h] \<Rightarrow> Inr \<lparr>Height = ucast h\<rparr> | _ \<Rightarrow> Inl ''bad header'')\<rparr>"

text \<open>A wallet that owns the addresses of indices 0 and 1 and has seen no block.\<close>

definition exWallet :: InMemoryWallet where
  "exWallet =
     \<lparr>hdRoot = [7], hdIndex = 2, currentHeight = 0,
      addrs = [0 \<mapsto> \<lparr>ScriptAddress = [7, 0]\<rparr>, 1 \<mapsto> \<lparr>ScriptAddress = [7, 1]\<rparr>],
      utxos = Map.empty, reorgJournal = Map.empty, chainUpdates = [],
      net = \<lparr>CoinbaseMaturity = 16\<rparr>,
      NewTxFromBytes = (\<lambda>b. Inl ''bad transaction''),
      IsCoinBaseTx = (\<lambda>mtx. TxIn mtx = [])\<rparr>"

definition exSched :: sched where
  "exSched = (\<lambda>t i. [0, 1])"

text \<open>
  A ledger at height 100 with two outputs: a coinbase output of 500000000 atoms that
  matures at height 116, and a locked output of 3 atoms.
\<close>

definition exOpA :: OutPoint where
  "exOpA = \<lparr>Hash = [10], Index = 0\<rparr>"

definition exOpB :: OutPoint where
  "exOpB = \<lparr>Hash = [11], Index = 0\<rparr>"

definition exCoinbaseUtxo :: utxo where
  "exCoinbaseUtxo =
     \<lparr>value' = \<lparr>AtomsValue = 500000000\<rparr>, keyIndex = 0, maturityHeight = 116,
      pkScript = [7, 0], isLocked = False\<rparr>"

definition exLockedUtxo :: utxo where
  "exLockedUtxo =
     \<lparr>value' = \<lparr>AtomsValue = 3\<rparr>, keyIndex = 1, maturityHeight = 0,
      pkScript = [7, 1], isLocked = True\<rparr>"

definition exLedger :: InMemoryWallet where
  "exLedger =
     exWallet\<lparr>currentHeight := 100,
              utxos := [exOpA \<mapsto> exCoinbaseUtxo, exOpB \<mapsto> exLockedUtxo]\<rparr>"

text \<open>An output whose script contains the script hashes of both addresses of the example wallet.\<close>

definition exOutput :: TxOut where
  "exOutput = \<lparr>PkScript = [7, 0, 7, 1], Amount = \<lparr>AtomsValue = 50\<rparr>\<rparr>"

text \<open>
  A block of height 100 with one coinbase transaction that pays 500000000 atoms to the
  address of index 0. Applied to the example wallet it leaves \<open>exCoinbaseUtxo\<close> at
  \<open>exOpA\<close>.
\<close>

definition exCoinbaseTx :: Tx where
  "exCoinbaseTx =
     \<lparr>MsgTx = \<lparr>TxHash = [10],
               TxOuts = [\<lparr>PkScript = [7, 0], Amount = \<lparr>AtomsValue = 500000000\<rparr>\<rparr>],
               TxIn = []\<rparr>\<rparr>"

definition exBlock :: chainUpdate where
  "exBlock = \<lparr>blockHeight = 100, filteredTxns = [exCoinbaseTx]\<rparr>"

text \<open>
  A run: blocks of heights 5 and 3 are connected, the consumer receives a signal, a block
  of height 9 is connected, and the consumer receives two signals.
\<close>

definition exEvents :: "event list" where
  "exEvents =
     [BlockConnected [5] [], BlockConnected [3] [], UpdateSignal exSched,
      BlockConnected [9] [], UpdateSignal exSched, UpdateSignal exSched]"

text \<open>
  A block of height 101 whose transaction spends the coinbase output of the example
  ledger and pays 7 atoms to the address of index 1.
\<close>

definition exSpendTx :: Tx where
  "exSpendTx =
     \<lparr>MsgTx = \<lparr>TxHash = [12],
               TxOuts = [\<lparr>PkScript = [7, 1], Amount = \<lparr>AtomsValue = 7\<rparr>\<rparr>],
               TxIn = [\<lparr>PreviousOutPoint = exOpA\<rparr>]\<rparr>\<rparr>"

definition exSpendBlock :: chainUpdate where
  "exSpendBlock = \<lparr>blockHeight = 101, filteredTxns = [exSpendTx]\<rparr>"

text \<open>
  A block of height 1 with two transactions: a coinbase that pays the address of
  index 0, and a transaction that spends the coinbase's output.
\<close>

definition exChainedBlock :: chainUpdate where
  "exChainedBlock =
     \<lparr>blockHeight = 1,
      filteredTxns =
        [\<lparr>MsgTx = \<lparr>TxHash = [13],
                   TxOuts = [\<lparr>PkScript = [7, 0], Amount = \<lparr>AtomsValue = 9\<rparr>\<rparr>],
                   TxIn = []\<rparr>\<rparr>,
         \<lparr>MsgTx = \<lparr>TxHash = [14], TxOuts = [],
                   TxIn = [\<lparr>PreviousOutPoint = \<lparr>Hash = [13], Index = 0\<rparr>\<rparr>]\<rparr>\<rparr>]\<rparr>"

text \<open>
  The wallet after \<open>2^32 - 1\<close> addresses were issued from index 0 with the example
  collaborators: every index but the last is in use.
\<close>

definition exFullWallet :: InMemoryWallet where
  "exFullWallet =
     exWallet\<lparr>hdIndex := 0xFFFFFFFF,
              addrs := (\<lambda>i. if i = 0xFFFFFFFF then None
                            else Some \<lparr>ScriptAddress = [7, ucast i]\<rparr>)\<rparr>"

text \<open>
  A block of height 1 whose coinbase has that output between two others: one that pays
  nobody and one that pays the address of index 0.
\<close>

definition exSharedTx :: Tx where
  "exSharedTx =
     \<lparr>MsgTx = \<lparr>TxHash = [10],
               TxOuts = [\<lparr>PkScript = [9], Amount = \<lparr>AtomsValue = 1\<rparr>\<rparr>, exOutput,
                         \<lparr>PkScript = [7, 0], Amount = \<lparr>AtomsValue = 2\<rparr>\<rparr>],
               TxIn = []\<rparr>\<rparr>"

definition exSharedBlock :: chainUpdate where
  "exSharedBlock = \<lparr>blockHeight = 1, filteredTxns = [exSharedTx]\<rparr>"

section \<open>Properties\<close>

subsection \<open>Containment of byte strings\<close>

text \<open>\<open>Contains\<close> holds when the second byte string occurs in the first, as a contiguous run.\<close>

lemma hasPrefix_iff: "hasPrefix b s \<longleftrightarrow> (\<exists>q. b = s @ q)"
  by (induction b s rule: hasPrefix.induct) auto

lemma Contains_iff: "Contains b s \<longleftrightarrow> (\<exists>p q. b = p @ s @ q)"
proof (induction b)
  case Nil
  then show ?case by auto
next
  case (Cons x xs)
  show ?case
  proof
    assume "Contains (x # xs) s"
    then consider "hasPrefix (x # xs) s" | "Contains xs s"
      by auto
    then show "\<exists>p q. x # xs = p @ s @ q"
    proof cases
      case 1
      then obtain q where "x # xs = [] @ s @ q"
        by (auto simp: hasPrefix_iff)
      then show ?thesis by blast
    next
      case 2
      with Cons obtain p q where "xs = p @ s @ q"
        by auto
      then have "x # xs = (x # p) @ s @ q"
        by simp
      then show ?thesis by blast
    qed
  next
    assume "\<exists>p q. x # xs = p @ s @ q"
    then obtain p q where e: "x # xs = p @ s @ q"
      by auto
    show "Contains (x # xs) s"
    proof (cases p)
      case Nil
      with e have "hasPrefix (x # xs) s"
        by (auto simp: hasPrefix_iff)
      then show ?thesis by simp
    next
      case (Cons y p')
      with e have "xs = p' @ s @ q"
        by simp
      with Cons.IH have "Contains xs s"
        by auto
      then show ?thesis by simp
    qed
  qed
qed

subsection \<open>The height is left alone by the evaluation of transactions\<close>

lemma evalOutput_currentHeight:
  "currentHeight (fst (evalOutput out i h cb ks s)) = currentHeight (fst s)"
  by (induction out i h cb ks s rule: evalOutput.induct)
     (auto split: option.splits simp: Let_def)

lemma evalOutputsFrom_currentHeight:
  "currentHeight (fst (evalOutputsFrom i ord outs h cb s)) = currentHeight (fst s)"
  by (induction outs arbitrary: i s) (auto simp: evalOutput_currentHeight)

lemma evalInputs_currentHeight:
  "currentHeight (fst (evalInputs ins s)) = currentHeight (fst s)"
  by (induction ins s rule: evalInputs.induct)
     (auto split: option.splits simp: Let_def)

lemma evalTxnsFrom_currentHeight:
  "currentHeight (fst (evalTxnsFrom t sched txs s)) = currentHeight (fst s)"
  by (induction txs arbitrary: t s)
     (auto simp: Let_def evalInputs_currentHeight evalOutputs_def evalOutputsFrom_currentHeight)

subsection \<open>The height of an applied update\<close>

text \<open>
  Claim C6. The consumer takes whatever update heads the queue and applies it, and the
  wallet's current height after the application is the update's height, whatever the
  height before was: no relation between the two is checked, and no update is refused.
\<close>

theorem applyUpdate_sets_height:
  "chainSyncer (wallet\<lparr>chainUpdates := update # queue\<rparr>) [(chainUpdateSignal, sched)]
     = Inr (applyUpdate sched (wallet\<lparr>chainUpdates := queue\<rparr>) update)
   \<and> currentHeight (applyUpdate sched wallet update) = blockHeight update"
proof -
  have "currentHeight (applyUpdate sched wallet update)
          = currentHeight (fst (evalTxnsFrom 0 sched (filteredTxns update)
              (wallet\<lparr>currentHeight := blockHeight update\<rparr>,
               \<lparr>utxosDestroyed = Map.empty, utxosCreated = []\<rparr>)))"
    by (simp add: applyUpdate_def Let_def split: prod.splits)
  then show ?thesis
    by (simp add: evalTxnsFrom_currentHeight)
qed

text \<open>A wallet at height 100 accepts an update of height 7.\<close>

theorem applyUpdate_sets_height_witness:
  "currentHeight (exWallet\<lparr>currentHeight := 100\<rparr>) = 100
   \<and> currentHeight
        (applyUpdate exSched (exWallet\<lparr>currentHeight := 100\<rparr>)
           \<lparr>blockHeight = 7, filteredTxns = []\<rparr>) = 7"
  using applyUpdate_sets_height
    [where wallet = "exWallet\<lparr>currentHeight := 100\<rparr>"
       and update = "\<lparr>blockHeight = 7, filteredTxns = []\<rparr>" and sched = exSched]
  by simp

subsection \<open>Disconnecting a height that was never applied\<close>

text \<open>
  Claim C2. When the journal has no undo entry for the height of the disconnected
  header, \<open>UnwindBlock\<close> does not return: it panics on the nil entry. It is never a
  silent no-op.
\<close>

theorem UnwindBlock_without_entry_panics:
  assumes "FromBytes ext header = Inr hdr"
    and "reorgJournal m (ucast (Height hdr)) = None"
  shows "UnwindBlock ext m header = Inl NilPointerDereference"
  using assms by (simp add: UnwindBlock_def)

theorem UnwindBlock_without_entry_panics_witness:
  "FromBytes exExt [5] = Inr \<lparr>Height = 5\<rparr> \<and> reorgJournal exWallet 5 = None
   \<and> UnwindBlock exExt exWallet [5] = Inl NilPointerDereference"
proof -
  have h: "FromBytes exExt [5] = Inr \<lparr>Height = 5\<rparr>"
    by (simp add: exExt_def)
  have j: "reorgJournal exWallet (ucast (Height \<lparr>Height = 5\<rparr>)) = None"
    by (simp add: exWallet_def)
  from UnwindBlock_without_entry_panics [OF h j] h j show ?thesis by simp
qed

subsection \<open>Inputs that spend outputs the ledger does not hold\<close>

lemma evalInputs_append:
  "evalInputs (ins1 @ ins2) s = evalInputs ins2 (evalInputs ins1 s)"
  by (induction ins1 s rule: evalInputs.induct)
     (auto split: option.splits simp: Let_def)

text \<open>
  Claim C8. An input whose previous outpoint is not in the ledger when its turn comes is
  passed over: the wallet and the undo entry that \<open>evalInputs\<close> returns are those it
  returns for the list without that input. \<open>evalInputs\<close> has no error result.
\<close>

theorem evalInputs_unknown_outpoint_skipped:
  assumes "utxos (fst (evalInputs before (wallet, undo))) (PreviousOutPoint txIn) = None"
  shows "evalInputs (before @ txIn # after) (wallet, undo)
           = evalInputs (before @ after) (wallet, undo)"
proof -
  obtain w u where s: "evalInputs before (wallet, undo) = (w, u)"
    by (cases "evalInputs before (wallet, undo)")
  with assms have "evalInputs (txIn # after) (w, u) = evalInputs after (w, u)"
    by simp
  with s show ?thesis
    by (simp add: evalInputs_append)
qed

text \<open>The example wallet holds no output; an input spending one changes nothing.\<close>

theorem evalInputs_unknown_outpoint_skipped_witness:
  "utxos exWallet \<lparr>Hash = [9], Index = 0\<rparr> = None
   \<and> evalInputs [\<lparr>PreviousOutPoint = \<lparr>Hash = [9], Index = 0\<rparr>\<rparr>]
        (exWallet, \<lparr>utxosDestroyed = Map.empty, utxosCreated = []\<rparr>)
       = (exWallet, \<lparr>utxosDestroyed = Map.empty, utxosCreated = []\<rparr>)"
proof -
  have h: "utxos (fst (evalInputs [] (exWallet, \<lparr>utxosDestroyed = Map.empty, utxosCreated = []\<rparr>)))
             (PreviousOutPoint \<lparr>PreviousOutPoint = \<lparr>Hash = [9], Index = 0\<rparr>\<rparr>) = None"
    by (simp add: exWallet_def)
  from evalInputs_unknown_outpoint_skipped [OF h, of "[]"] h show ?thesis
    by simp
qed

subsection \<open>A failed address issuance\<close>

text \<open>
  Claim C9. When the derivation of the child key, the extraction of the private key, the
  derivation of the address or the registration with the node's transaction filter
  fails, \<open>NewAddress\<close> returns that error and the wallet is the wallet before the call:
  no address is registered and \<open>hdIndex\<close> is the same, so the next call derives the same
  index.
\<close>

theorem NewAddress_failure_leaves_wallet:
  assumes "Child ext (hdRoot wallet) (hdIndex wallet) = Inl err
     \<or> (\<exists>childKey. Child ext (hdRoot wallet) (hdIndex wallet) = Inr childKey
          \<and> (ECPrivKey ext childKey = Inl err
             \<or> (\<exists>privKey. ECPrivKey ext childKey = Inr privKey
                  \<and> (keyToAddr ext privKey (net wallet) = Inl err
                     \<or> (\<exists>addr. keyToAddr ext privKey (net wallet) = Inr addr
                          \<and> LoadTxFilter ext False [addr] = Some err)))))"
  shows "NewAddress ext wallet = (Inl err, wallet)"
  using assms by (auto simp: NewAddress_def newAddress_def)

text \<open>The node rejects the filter update: the wallet keeps index 2 free.\<close>

theorem NewAddress_failure_leaves_wallet_witness:
  "NewAddress (exExt\<lparr>LoadTxFilter := (\<lambda>reload as. Some ''rejected'')\<rparr>) exWallet
     = (Inl ''rejected'', exWallet)
   \<and> hdIndex exWallet = 2 \<and> addrs exWallet 2 = None"
proof -
  let ?ext = "exExt\<lparr>LoadTxFilter := (\<lambda>reload as. Some ''rejected'')\<rparr>"
  have h: "Child ?ext (hdRoot exWallet) (hdIndex exWallet) = Inl ''rejected''
     \<or> (\<exists>childKey. Child ?ext (hdRoot exWallet) (hdIndex exWallet) = Inr childKey
          \<and> (ECPrivKey ?ext childKey = Inl ''rejected''
             \<or> (\<exists>privKey. ECPrivKey ?ext childKey = Inr privKey
                  \<and> (keyToAddr ?ext privKey (net exWallet) = Inl ''rejected''
                     \<or> (\<exists>addr. keyToAddr ?ext privKey (net exWallet) = Inr addr
                          \<and> LoadTxFilter ?ext False [addr] = Some ''rejected'')))))"
    by (simp add: exExt_def)
  from NewAddress_failure_leaves_wallet [OF h] show ?thesis
    by (simp add: exWallet_def)
qed

subsection \<open>What the read operations count\<close>

text \<open>
  Both loops go through the order once and keep the amounts that \<open>counted\<close> yields. A
  record that yields nothing can be taken out of the ledger without changing a result;
  one that yields its amount adds an entry at its place in the order, and its amount to
  the sum.
\<close>

lemma ListUnspentLoop_counted:
  "ListUnspentLoop w ks r
     = r @ map (\<lambda>a. \<lparr>Account = [], UnspentAmount = a\<rparr>) (List.map_filter (counted w) ks)"
  by (induction ks arbitrary: r)
     (auto simp: counted_def split: option.splits)

lemma GetBalanceLoop_counted:
  "GetBalanceLoop w ks b
     = b\<lparr>AtomsValue := AtomsValue b + sum_list (map AtomsValue (List.map_filter (counted w) ks))\<rparr>"
  by (induction ks arbitrary: b)
     (auto simp: counted_def add.assoc split: option.splits)

lemma counted_without:
  "counted (w\<lparr>utxos := (utxos w)(op := None)\<rparr>) = (\<lambda>k. if k = op then None else counted w k)"
  by (rule ext) (simp add: counted_def split: option.splits)

lemma map_filter_absent:
  "f op = None \<Longrightarrow> List.map_filter (\<lambda>k. if k = op then None else f k) ks = List.map_filter f ks"
  by (induction ks) (auto split: option.splits)

lemma map_filter_notin:
  "op \<notin> set ks \<Longrightarrow> List.map_filter (\<lambda>k. if k = op then None else f k) ks = List.map_filter f ks"
  by (induction ks) (auto split: option.splits)

lemma map_filter_append: "List.map_filter f (xs @ ys) = List.map_filter f xs @ List.map_filter f ys"
  by (simp add: List.map_filter_def)

lemma excluded_listing:
  assumes "counted w op = None"
  shows "fst (ListUnspent ks w) = fst (ListUnspent ks (w\<lparr>utxos := (utxos w)(op := None)\<rparr>))"
  using assms
  by (simp add: ListUnspent_def ListUnspentLoop_counted counted_without map_filter_absent)

lemma excluded_balance:
  assumes "counted w op = None"
  shows "fst (GetBalance ks w) = fst (GetBalance ks (w\<lparr>utxos := (utxos w)(op := None)\<rparr>))"
  using assms
  by (simp add: GetBalance_def GetBalanceLoop_counted counted_without map_filter_absent)

lemma included_listing:
  assumes "counted w op = Some a" "op \<notin> set ks1" "op \<notin> set ks2"
  shows "fst (ListUnspent (ks1 @ op # ks2) w) =
           fst (ListUnspent ks1 (w\<lparr>utxos := (utxos w)(op := None)\<rparr>))
           @ \<lparr>Account = [], UnspentAmount = a\<rparr>
           # fst (ListUnspent ks2 (w\<lparr>utxos := (utxos w)(op := None)\<rparr>))"
  using assms
  by (simp add: ListUnspent_def ListUnspentLoop_counted counted_without map_filter_notin map_filter_append)

lemma included_balance:
  assumes "counted w op = Some a" "op \<notin> set ks1" "op \<notin> set ks2"
  shows "AtomsValue (TotalSpendable (fst (GetBalance (ks1 @ op # ks2) w))) =
           AtomsValue (TotalSpendable (fst (GetBalance (ks1 @ op # ks2)
             (w\<lparr>utxos := (utxos w)(op := None)\<rparr>))))
           + AtomsValue a"
  using assms
  by (simp add: GetBalance_def GetBalanceLoop_counted counted_without map_filter_notin map_filter_append)

text \<open>
  The balance does not depend on the order in which the ledger is enumerated: addition
  on \<open>int64\<close> is commutative and associative also when it wraps.
\<close>

lemma map_filter_mset:
  "mset (List.map_filter f xs) = image_mset (the \<circ> f) (filter_mset (\<lambda>x. f x \<noteq> None) (mset xs))"
  by (simp add: List.map_filter_def)

lemma GetBalance_order:
  assumes "distinct ks" and "distinct ks'" and "set ks = set ks'"
  shows "fst (GetBalance ks w) = fst (GetBalance ks' w)"
proof -
  from assms have "mset ks = mset ks'"
    by (simp add: set_eq_iff_mset_eq_distinct)
  then have "mset (map AtomsValue (List.map_filter (counted w) ks))
           = mset (map AtomsValue (List.map_filter (counted w) ks'))"
    by (simp add: map_filter_mset)
  then have "sum_list (map AtomsValue (List.map_filter (counted w) ks))
           = sum_list (map AtomsValue (List.map_filter (counted w) ks'))"
    by (metis sum_mset_sum_list)
  then show ?thesis
    by (simp add: GetBalance_def GetBalanceLoop_counted)
qed

text \<open>\<open>UnlockOutputs\<close> writes the ledger only, and there only the flags of the inputs' outputs.\<close>

lemma UnlockOutputs_frame:
  "\<exists>us. UnlockOutputs inputs w = w\<lparr>utxos := us\<rparr>"
proof (induction inputs arbitrary: w)
  case Nil
  have "w = w\<lparr>utxos := utxos w\<rparr>" by simp
  then show ?case by (metis UnlockOutputs.simps(1))
next
  case (Cons input inputs)
  show ?case
  proof (cases "utxos w (PreviousOutPoint input)")
    case None
    with Cons show ?thesis by simp
  next
    case (Some u)
    from Cons [of "w\<lparr>utxos := (utxos w)(PreviousOutPoint input \<mapsto> u\<lparr>isLocked := False\<rparr>)\<rparr>"]
    obtain us where
      "UnlockOutputs inputs (w\<lparr>utxos := (utxos w)(PreviousOutPoint input \<mapsto> u\<lparr>isLocked := False\<rparr>)\<rparr>)
         = w\<lparr>utxos := us\<rparr>"
      by auto
    with Some show ?thesis by auto
  qed
qed

lemma UnlockOutputs_utxos:
  "utxos (UnlockOutputs inputs w) k =
     (if k \<in> PreviousOutPoint ` set inputs
      then map_option (\<lambda>u. u\<lparr>isLocked := False\<rparr>) (utxos w k)
      else utxos w k)"
  by (induction inputs arbitrary: w) (auto split: option.splits)

lemma UnlockOutputs_currentHeight:
  "currentHeight (UnlockOutputs inputs w) = currentHeight w"
  using UnlockOutputs_frame [of inputs w] by auto

subsection \<open>Locked outputs\<close>

text \<open>
  Claim C5. A record whose \<open>isLocked\<close> flag is set is not counted: in every order, the
  listing and the balance are those of the ledger without the record. After
  \<open>UnlockOutputs\<close> with an input that spends the outpoint, the record is the same with the
  flag cleared, and when it is mature the listing has its amount at the outpoint's place
  in the order and the balance is greater by its amount than that of the other records.
\<close>

theorem locked_output_excluded_until_unlocked:
  assumes "utxos wallet op = Some u" and "isLocked u"
  shows
    "fst (ListUnspent ks wallet)
       = fst (ListUnspent ks (wallet\<lparr>utxos := (utxos wallet)(op := None)\<rparr>))
     \<and> fst (GetBalance ks wallet)
       = fst (GetBalance ks (wallet\<lparr>utxos := (utxos wallet)(op := None)\<rparr>))
     \<and> (isMature u (currentHeight wallet) \<and> op \<in> PreviousOutPoint ` set inputs
          \<and> op \<notin> set ks1 \<and> op \<notin> set ks2 \<longrightarrow>
         (let wallet' = UnlockOutputs inputs wallet;
              others = wallet'\<lparr>utxos := (utxos wallet')(op := None)\<rparr>
          in utxos wallet' op = Some (u\<lparr>isLocked := False\<rparr>)
             \<and> fst (ListUnspent (ks1 @ op # ks2) wallet')
                 = fst (ListUnspent ks1 others)
                   @ \<lparr>Account = [], UnspentAmount = value' u\<rparr> # fst (ListUnspent ks2 others)
             \<and> AtomsValue (TotalSpendable (fst (GetBalance (ks1 @ op # ks2) wallet')))
                 = AtomsValue (TotalSpendable (fst (GetBalance (ks1 @ op # ks2) others)))
                   + AtomsValue (value' u)))"
proof -
  from assms have locked: "counted wallet op = None"
    by (simp add: counted_def)
  let ?w = "UnlockOutputs inputs wallet"
  let ?others = "?w\<lparr>utxos := (utxos ?w)(op := None)\<rparr>"
  have unlocked:
    "utxos ?w op = Some (u\<lparr>isLocked := False\<rparr>)
     \<and> fst (ListUnspent (ks1 @ op # ks2) ?w)
         = fst (ListUnspent ks1 ?others)
           @ \<lparr>Account = [], UnspentAmount = value' u\<rparr> # fst (ListUnspent ks2 ?others)
     \<and> AtomsValue (TotalSpendable (fst (GetBalance (ks1 @ op # ks2) ?w)))
         = AtomsValue (TotalSpendable (fst (GetBalance (ks1 @ op # ks2) ?others)))
           + AtomsValue (value' u)"
    if mature: "isMature u (currentHeight wallet)" and spent: "op \<in> PreviousOutPoint ` set inputs"
      and once: "op \<notin> set ks1" "op \<notin> set ks2"
  proof -
    from assms(1) spent have rec: "utxos ?w op = Some (u\<lparr>isLocked := False\<rparr>)"
      by (simp add: UnlockOutputs_utxos)
    have "isMature (u\<lparr>isLocked := False\<rparr>) (currentHeight ?w)"
      using mature by (simp add: isMature_def UnlockOutputs_currentHeight)
    with rec have c: "counted ?w op = Some (value' u)"
      by (simp add: counted_def)
    from rec included_listing [OF c once] included_balance [OF c once]
    show ?thesis by simp
  qed
  from excluded_listing [OF locked] excluded_balance [OF locked] unlocked
  show ?thesis
    unfolding Let_def by blast
qed

text \<open>
  The locked output of 3 atoms of the example ledger; the other output is immature at
  height 100.
\<close>

theorem locked_output_excluded_until_unlocked_witness:
  "utxos exLedger exOpB = Some exLockedUtxo \<and> isLocked exLockedUtxo
   \<and> isMature exLockedUtxo (currentHeight exLedger)
   \<and> fst (ListUnspent [exOpA, exOpB] exLedger) = []
   \<and> fst (GetBalance [exOpA, exOpB] exLedger) = \<lparr>TotalSpendable = \<lparr>AtomsValue = 0\<rparr>\<rparr>
   \<and> fst (ListUnspent [exOpA, exOpB] (UnlockOutputs [\<lparr>PreviousOutPoint = exOpB\<rparr>] exLedger))
       = [\<lparr>Account = [], UnspentAmount = \<lparr>AtomsValue = 3\<rparr>\<rparr>]
   \<and> fst (GetBalance [exOpA, exOpB] (UnlockOutputs [\<lparr>PreviousOutPoint = exOpB\<rparr>] exLedger))
       = \<lparr>TotalSpendable = \<lparr>AtomsValue = 3\<rparr>\<rparr>"
proof -
  have h1: "utxos exLedger exOpB = Some exLockedUtxo"
    by (simp add: exLedger_def exOpA_def exOpB_def)
  have h2: "isLocked exLockedUtxo"
    by (simp add: exLockedUtxo_def)
  have h3: "isMature exLockedUtxo (currentHeight exLedger)"
    by (simp add: isMature_def exLockedUtxo_def exLedger_def)
  have h4: "exOpB \<in> PreviousOutPoint ` set [\<lparr>PreviousOutPoint = exOpB\<rparr>]"
    by simp
  have h5: "exOpB \<notin> set [exOpA]"
    by (simp add: exOpA_def exOpB_def)
  have h6: "exOpB \<notin> set []"
    by simp
  have e: "fst (ListUnspent [exOpA, exOpB] exLedger) = []"
       "fst (GetBalance [exOpA, exOpB] exLedger) = \<lparr>TotalSpendable = \<lparr>AtomsValue = 0\<rparr>\<rparr>"
    by (simp_all add: ListUnspent_def GetBalance_def exLedger_def exOpA_def exOpB_def
        exCoinbaseUtxo_def exLockedUtxo_def isMature_def)
  have f: "fst (ListUnspent [exOpA, exOpB] (UnlockOutputs [\<lparr>PreviousOutPoint = exOpB\<rparr>] exLedger))
       = [\<lparr>Account = [], UnspentAmount = \<lparr>AtomsValue = 3\<rparr>\<rparr>]"
     "fst (GetBalance [exOpA, exOpB] (UnlockOutputs [\<lparr>PreviousOutPoint = exOpB\<rparr>] exLedger))
       = \<lparr>TotalSpendable = \<lparr>AtomsValue = 3\<rparr>\<rparr>"
    by (simp_all add: ListUnspent_def GetBalance_def exLedger_def exOpA_def exOpB_def
        exCoinbaseUtxo_def exLockedUtxo_def isMature_def)
  from locked_output_excluded_until_unlocked
    [OF h1 h2, where ks = "[exOpA, exOpB]" and inputs = "[\<lparr>PreviousOutPoint = exOpB\<rparr>]"
       and ?ks1.0 = "[exOpA]" and ?ks2.0 = "[]"]
    h1 h2 h3 h4 h5 h6 e f
  show ?thesis by simp
qed


subsection \<open>The loop over the addresses\<close>

text \<open>
  The loop that \<open>evalOutputs\<close> runs for one output, in closed form: every matching
  address writes the record of the same outpoint and appends the outpoint to
  \<open>utxosCreated\<close>, so the record left is that of the last matching index of the order.
\<close>

lemma paysTo_utxos [simp]: "paysTo (w\<lparr>utxos := us\<rparr>) out = paysTo w out"
  by (rule ext) (simp add: paysTo_def)

lemma evalOutput_closed:
  "evalOutput out i h cb ks (w, u) =
     (let ms = filter (paysTo w out) ks;
          op = \<lparr>Hash = h, Index = of_nat i\<rparr>
      in (if ms = [] then w
          else w\<lparr>utxos := (utxos w)(op \<mapsto>
                 \<lparr>value' = Amount out, keyIndex = last ms,
                  maturityHeight = (if cb then currentHeight w + CoinbaseMaturity (net w) else 0),
                  pkScript = PkScript out, isLocked = False\<rparr>)\<rparr>,
          u\<lparr>utxosCreated := utxosCreated u @ replicate (length ms) op\<rparr>))"
proof (induction ks arbitrary: w u)
  case Nil
  then show ?case by simp
next
  case (Cons k ks)
  show ?case
  proof (cases "paysTo w out k")
    case False
    then show ?thesis
      using Cons [of w u] by (auto simp: paysTo_def split: option.splits)
  next
    case True
    then obtain addr where a: "addrs w k = Some addr" "Contains (PkScript out) (ScriptAddress addr)"
      by (auto simp: paysTo_def split: option.splits)
    show ?thesis
      using True a
      by (simp add: Cons Let_def replicate_app_Cons_same)
  qed
qed


subsection \<open>Fields that the evaluation of transactions leaves alone\<close>

lemma onlyUtxos_refl [simp]: "onlyUtxos w w"
  by (simp add: onlyUtxos_def)

lemma onlyUtxos_update [simp]: "onlyUtxos w (w\<lparr>utxos := us\<rparr>)"
  by (simp add: onlyUtxos_def)

lemma onlyUtxos_trans: "onlyUtxos w w' \<Longrightarrow> onlyUtxos w' w'' \<Longrightarrow> onlyUtxos w w''"
  unfolding onlyUtxos_def
  by (cases w, cases w', cases w'') simp

lemma onlyUtxos_fields:
  assumes "onlyUtxos w w'"
  shows "currentHeight w' = currentHeight w" and "net w' = net w" and "addrs w' = addrs w"
    and "IsCoinBaseTx w' = IsCoinBaseTx w" and "reorgJournal w' = reorgJournal w"
    and "chainUpdates w' = chainUpdates w" and "hdIndex w' = hdIndex w"
    and "hdRoot w' = hdRoot w" and "NewTxFromBytes w' = NewTxFromBytes w"
  using assms unfolding onlyUtxos_def
  by (cases w, cases w', simp)+

lemma evalOutput_frame: "onlyUtxos (fst s) (fst (evalOutput out i h cb ks s))"
  by (cases s) (simp add: evalOutput_closed Let_def)

lemma evalOutputsFrom_frame: "onlyUtxos (fst s) (fst (evalOutputsFrom i ord outs h cb s))"
proof (induction outs arbitrary: i s)
  case Nil
  then show ?case by simp
next
  case (Cons out outs)
  from onlyUtxos_trans [OF evalOutput_frame Cons]
  show ?case
    by simp
qed

lemma evalInputs_frame: "onlyUtxos (fst s) (fst (evalInputs ins s))"
proof (induction ins arbitrary: s)
  case Nil
  then show ?case by (cases s) simp
next
  case (Cons txIn inputs)
  obtain wallet undo where s: "s = (wallet, undo)"
    by (cases s)
  show ?case
  proof (cases "utxos wallet (PreviousOutPoint txIn)")
    case None
    with Cons [of s] s show ?thesis by simp
  next
    case (Some old)
    let ?s1 = "(wallet\<lparr>utxos := (utxos wallet)(PreviousOutPoint txIn := None)\<rparr>,
               undo\<lparr>utxosDestroyed := (utxosDestroyed undo)(PreviousOutPoint txIn \<mapsto> old)\<rparr>)"
    have "onlyUtxos wallet (fst ?s1)"
      by simp
    from onlyUtxos_trans [OF this Cons [of ?s1]] Some s show ?thesis
      by (simp add: Let_def)
  qed
qed

lemma evalTxnsFrom_frame: "onlyUtxos (fst s) (fst (evalTxnsFrom t sched txs s))"
proof (induction txs arbitrary: t s)
  case Nil
  then show ?case by simp
next
  case (Cons tx txs)
  let ?s1 = "evalOutputs (sched t) (TxOuts (MsgTx tx)) (TxHash (MsgTx tx))
               (IsCoinBaseTx (fst s) (MsgTx tx)) s"
  have "onlyUtxos (fst s) (fst ?s1)"
    by (simp add: evalOutputs_def evalOutputsFrom_frame)
  moreover have "onlyUtxos (fst ?s1) (fst (evalInputs (TxIn (MsgTx tx)) ?s1))"
    by (rule evalInputs_frame)
  moreover have "onlyUtxos (fst (evalInputs (TxIn (MsgTx tx)) ?s1))
                   (fst (evalTxnsFrom (Suc t) sched txs (evalInputs (TxIn (MsgTx tx)) ?s1)))"
    by (rule Cons)
  ultimately show ?case
    by (auto simp: Let_def intro: onlyUtxos_trans)
qed

subsection \<open>Where the records of the ledger come from\<close>

text \<open>
  A record in the ledger after a step was there before, or the step wrote it: unlocked,
  under the transaction's hash, with the maturity height of the transaction's kind.
\<close>

lemma evalOutput_record:
  assumes "utxos (fst (evalOutput out i h cb ks s)) op = Some r"
  shows "utxos (fst s) op = Some r
     \<or> (Hash op = h
        \<and> maturityHeight r
            = (if cb then currentHeight (fst s) + CoinbaseMaturity (net (fst s)) else 0)
        \<and> \<not> isLocked r)"
  using assms
  by (cases s) (auto simp: evalOutput_closed Let_def split: if_splits)

lemma evalOutputsFrom_record:
  assumes "utxos (fst (evalOutputsFrom i ord outs h cb s)) op = Some r"
  shows "utxos (fst s) op = Some r
     \<or> (Hash op = h
        \<and> maturityHeight r
            = (if cb then currentHeight (fst s) + CoinbaseMaturity (net (fst s)) else 0)
        \<and> \<not> isLocked r)"
  using assms
proof (induction outs arbitrary: i s)
  case Nil
  then show ?case by simp
next
  case (Cons out outs)
  let ?s1 = "evalOutput out i h cb (ord i) s"
  have f: "currentHeight (fst ?s1) = currentHeight (fst s)" "net (fst ?s1) = net (fst s)"
    using onlyUtxos_fields [OF evalOutput_frame [of s out i h cb "ord i"]] by simp_all
  from Cons.prems have "utxos (fst (evalOutputsFrom (Suc i) ord outs h cb ?s1)) op = Some r"
    by simp
  from Cons.IH [OF this] f evalOutput_record [of out i h cb "ord i" s op r]
  show ?case
    by auto
qed

lemma evalInputs_record:
  "utxos (fst (evalInputs ins s)) op = Some r \<Longrightarrow> utxos (fst s) op = Some r"
proof (induction ins arbitrary: s)
  case Nil
  then show ?case by (cases s) simp
next
  case (Cons txIn inputs)
  obtain wallet undo where s: "s = (wallet, undo)"
    by (cases s)
  show ?case
  proof (cases "utxos wallet (PreviousOutPoint txIn)")
    case None
    with Cons.prems s have "utxos (fst (evalInputs inputs s)) op = Some r"
      by simp
    from Cons.IH [OF this] show ?thesis .
  next
    case (Some old)
    let ?s1 = "(wallet\<lparr>utxos := (utxos wallet)(PreviousOutPoint txIn := None)\<rparr>,
               undo\<lparr>utxosDestroyed := (utxosDestroyed undo)(PreviousOutPoint txIn \<mapsto> old)\<rparr>)"
    from Cons.prems Some s have "utxos (fst (evalInputs inputs ?s1)) op = Some r"
      by (simp add: Let_def)
    from Cons.IH [OF this] s show ?thesis
      by (simp split: if_splits)
  qed
qed

lemma evalTxnsFrom_record:
  assumes "utxos (fst (evalTxnsFrom t sched txs s)) op = Some r"
  shows "utxos (fst s) op = Some r
     \<or> (\<exists>tx \<in> set txs.
          Hash op = TxHash (MsgTx tx)
          \<and> maturityHeight r
              = (if IsCoinBaseTx (fst s) (MsgTx tx)
                 then currentHeight (fst s) + CoinbaseMaturity (net (fst s)) else 0)
          \<and> \<not> isLocked r)"
  using assms
proof (induction txs arbitrary: t s)
  case Nil
  then show ?case by simp
next
  case (Cons tx txs)
  let ?cb = "IsCoinBaseTx (fst s) (MsgTx tx)"
  let ?s1 = "evalOutputs (sched t) (TxOuts (MsgTx tx)) (TxHash (MsgTx tx)) ?cb s"
  let ?s2 = "evalInputs (TxIn (MsgTx tx)) ?s1"
  have "onlyUtxos (fst s) (fst ?s1)"
    by (simp add: evalOutputs_def evalOutputsFrom_frame)
  then have "onlyUtxos (fst s) (fst ?s2)"
    using evalInputs_frame [of ?s1 "TxIn (MsgTx tx)"] by (rule onlyUtxos_trans)
  note f = onlyUtxos_fields [OF this]
  from Cons.prems have "utxos (fst (evalTxnsFrom (Suc t) sched txs ?s2)) op = Some r"
    by (simp add: Let_def)
  from Cons.IH [OF this]
  consider "utxos (fst ?s2) op = Some r"
    | tx' where "tx' \<in> set txs" "Hash op = TxHash (MsgTx tx')"
        "maturityHeight r
           = (if IsCoinBaseTx (fst s) (MsgTx tx')
              then currentHeight (fst s) + CoinbaseMaturity (net (fst s)) else 0)"
        "\<not> isLocked r"
    using f by auto
  then show ?case
  proof cases
    case 1
    then have "utxos (fst ?s1) op = Some r"
      by (rule evalInputs_record)
    from evalOutputsFrom_record [OF this [unfolded evalOutputs_def]]
    show ?thesis by auto
  next
    case 2
    then show ?thesis by auto
  qed
qed

lemma applyUpdate_utxos:
  "utxos (applyUpdate sched w U)
     = utxos (fst (evalTxnsFrom 0 sched (filteredTxns U)
         (w\<lparr>currentHeight := blockHeight U\<rparr>, \<lparr>utxosDestroyed = Map.empty, utxosCreated = []\<rparr>)))"
  by (simp add: applyUpdate_def Let_def split: prod.splits)

lemma applyUpdate_record:
  assumes "utxos (applyUpdate sched w U) op = Some r"
  shows "utxos w op = Some r
     \<or> (\<exists>tx \<in> set (filteredTxns U).
          Hash op = TxHash (MsgTx tx)
          \<and> maturityHeight r
              = (if IsCoinBaseTx w (MsgTx tx)
                 then blockHeight U + CoinbaseMaturity (net w) else 0)
          \<and> \<not> isLocked r)"
  using evalTxnsFrom_record [OF assms [unfolded applyUpdate_utxos]]
  by (simp cong del: if_weak_cong split del: if_split)


subsection \<open>Maturity\<close>

lemma counted_mature:
  "utxos w op = Some u \<Longrightarrow> counted w op =
     (if sint (maturityHeight u) \<le> sint (currentHeight w) \<and> \<not> isLocked u then Some (value' u) else None)"
  by (simp add: counted_def isMature_def)

text \<open>
  Claim C4, as the code has it. Take a record with maturity height \<open>M\<close> in the ledger and
  change nothing but the current height. At a height below \<open>M\<close> the listing and the
  balance are those of the ledger without the record. At a height of \<open>M\<close> or more, and
  when the record is not locked, the listing has the record's amount at the outpoint's
  place in the order and the balance is greater by the amount than that of the other
  records. Neither operation changes the wallet it is run on. A record that the
  application of an update adds to a ledger has the maturity height
  \<open>blockHeight + CoinbaseMaturity\<close> (an \<open>int64\<close> addition) when its transaction is a
  coinbase, and 0 otherwise.
\<close>

theorem maturity_gating:
  assumes "utxos wallet op = Some u"
  shows
    "(sint low < sint (maturityHeight u) \<longrightarrow>
        (let early = wallet\<lparr>currentHeight := low\<rparr>;
             others = early\<lparr>utxos := (utxos wallet)(op := None)\<rparr>
         in fst (ListUnspent ks early) = fst (ListUnspent ks others)
            \<and> fst (GetBalance ks early) = fst (GetBalance ks others)))
     \<and> (sint (maturityHeight u) \<le> sint high \<and> \<not> isLocked u
          \<and> op \<notin> set ks1 \<and> op \<notin> set ks2 \<longrightarrow>
        (let late = wallet\<lparr>currentHeight := high\<rparr>;
             others = late\<lparr>utxos := (utxos wallet)(op := None)\<rparr>
         in fst (ListUnspent (ks1 @ op # ks2) late)
              = fst (ListUnspent ks1 others)
                @ \<lparr>Account = [], UnspentAmount = value' u\<rparr> # fst (ListUnspent ks2 others)
            \<and> AtomsValue (TotalSpendable (fst (GetBalance (ks1 @ op # ks2) late)))
              = AtomsValue (TotalSpendable (fst (GetBalance (ks1 @ op # ks2) others)))
                + AtomsValue (value' u)))
     \<and> snd (ListUnspent order w) = w \<and> snd (GetBalance order w) = w
     \<and> (\<forall>p r. utxos (applyUpdate sched w update) p = Some r \<longrightarrow>
           utxos w p = Some r
           \<or> (\<exists>tx \<in> set (filteredTxns update).
                Hash p = TxHash (MsgTx tx)
                \<and> maturityHeight r
                    = (if IsCoinBaseTx w (MsgTx tx)
                       then blockHeight update + CoinbaseMaturity (net w) else 0)))"
proof -
  let ?early = "wallet\<lparr>currentHeight := low\<rparr>"
  let ?late = "wallet\<lparr>currentHeight := high\<rparr>"
  have early: "fst (ListUnspent ks ?early) = fst (ListUnspent ks (?early\<lparr>utxos := (utxos wallet)(op := None)\<rparr>))
      \<and> fst (GetBalance ks ?early) = fst (GetBalance ks (?early\<lparr>utxos := (utxos wallet)(op := None)\<rparr>))"
    if "sint low < sint (maturityHeight u)"
  proof -
    from assms that have e: "counted ?early op = None"
      by (simp add: counted_mature)
    from excluded_listing [OF e, of ks] excluded_balance [OF e, of ks] show ?thesis
      by simp
  qed
  have late: "fst (ListUnspent (ks1 @ op # ks2) ?late)
              = fst (ListUnspent ks1 (?late\<lparr>utxos := (utxos wallet)(op := None)\<rparr>))
                @ \<lparr>Account = [], UnspentAmount = value' u\<rparr>
                # fst (ListUnspent ks2 (?late\<lparr>utxos := (utxos wallet)(op := None)\<rparr>))
      \<and> AtomsValue (TotalSpendable (fst (GetBalance (ks1 @ op # ks2) ?late)))
              = AtomsValue (TotalSpendable (fst (GetBalance (ks1 @ op # ks2)
                  (?late\<lparr>utxos := (utxos wallet)(op := None)\<rparr>))))
                + AtomsValue (value' u)"
    if "sint (maturityHeight u) \<le> sint high" and "\<not> isLocked u"
      and once: "op \<notin> set ks1" "op \<notin> set ks2"
  proof -
    from assms that(1,2) have l: "counted ?late op = Some (value' u)"
      by (simp add: counted_mature)
    from included_listing [OF l once] included_balance [OF l once] show ?thesis
      by simp
  qed
  have same: "snd (ListUnspent order w) = w" "snd (GetBalance order w) = w"
    by (simp_all add: ListUnspent_def GetBalance_def)
  have made: "utxos w p = Some r
           \<or> (\<exists>tx \<in> set (filteredTxns update).
                Hash p = TxHash (MsgTx tx)
                \<and> maturityHeight r
                    = (if IsCoinBaseTx w (MsgTx tx)
                       then blockHeight update + CoinbaseMaturity (net w) else 0))"
    if "utxos (applyUpdate sched w update) p = Some r" for p r
    using applyUpdate_record [OF that] by auto
  from early late same made show ?thesis
    unfolding Let_def by blast
qed

text \<open>
  The coinbase block of height 100 with a maturity window of 16: nothing is counted at
  height 100, and 500000000 atoms are at height 116.
\<close>

theorem maturity_gating_witness:
  "utxos (applyUpdate exSched exWallet exBlock) exOpA = Some exCoinbaseUtxo
   \<and> maturityHeight exCoinbaseUtxo = blockHeight exBlock + CoinbaseMaturity (net exWallet)
   \<and> utxos exLedger exOpA = Some exCoinbaseUtxo \<and> currentHeight exLedger = 100
   \<and> fst (ListUnspent [exOpA, exOpB] exLedger) = []
   \<and> fst (GetBalance [exOpA, exOpB] exLedger) = \<lparr>TotalSpendable = \<lparr>AtomsValue = 0\<rparr>\<rparr>
   \<and> fst (ListUnspent [exOpA, exOpB] (exLedger\<lparr>currentHeight := 116\<rparr>))
       = [\<lparr>Account = [], UnspentAmount = \<lparr>AtomsValue = 500000000\<rparr>\<rparr>]
   \<and> AtomsValue (TotalSpendable (fst (GetBalance [exOpA, exOpB] (exLedger\<lparr>currentHeight := 116\<rparr>))))
       = 500000000"
proof -
  have h1: "utxos exLedger exOpA = Some exCoinbaseUtxo"
    by (simp add: exLedger_def exOpA_def exOpB_def)
  have h2: "exOpA \<notin> set []"
    by simp
  have h3: "exOpA \<notin> set [exOpB]"
    by (simp add: exOpA_def exOpB_def)
  have h4: "sint (100 :: int64) < sint (maturityHeight exCoinbaseUtxo)"
    by (simp add: exCoinbaseUtxo_def)
  have h5: "sint (maturityHeight exCoinbaseUtxo) \<le> sint (116 :: int64)"
    by (simp add: exCoinbaseUtxo_def)
  have a: "utxos (applyUpdate exSched exWallet exBlock) exOpA = Some exCoinbaseUtxo"
    by (simp add: applyUpdate_def evalOutputs_def exSched_def exWallet_def exBlock_def
        exCoinbaseTx_def exOpA_def exCoinbaseUtxo_def Let_def)
  have m: "maturityHeight exCoinbaseUtxo = blockHeight exBlock + CoinbaseMaturity (net exWallet)"
    by (simp add: exCoinbaseUtxo_def exBlock_def exWallet_def)
  have c: "currentHeight exLedger = 100"
    by (simp add: exLedger_def)
  have o: "fst (ListUnspent [exOpB] (exLedger\<lparr>utxos := (utxos exLedger)(exOpA := None)\<rparr>)) = []"
    "fst (ListUnspent [exOpA, exOpB] (exLedger\<lparr>utxos := (utxos exLedger)(exOpA := None)\<rparr>)) = []"
    "fst (GetBalance [exOpA, exOpB] (exLedger\<lparr>utxos := (utxos exLedger)(exOpA := None)\<rparr>))
       = \<lparr>TotalSpendable = \<lparr>AtomsValue = 0\<rparr>\<rparr>"
    "fst (ListUnspent [exOpB] (exLedger\<lparr>currentHeight := 116, utxos := (utxos exLedger)(exOpA := None)\<rparr>)) = []"
    "fst (GetBalance [exOpA, exOpB] (exLedger\<lparr>currentHeight := 116, utxos := (utxos exLedger)(exOpA := None)\<rparr>))
       = \<lparr>TotalSpendable = \<lparr>AtomsValue = 0\<rparr>\<rparr>"
    by (simp_all add: ListUnspent_def GetBalance_def exLedger_def exOpA_def exOpB_def
        exLockedUtxo_def isMature_def)
  have u: "\<not> isLocked exCoinbaseUtxo" "value' exCoinbaseUtxo = \<lparr>AtomsValue = 500000000\<rparr>"
    by (simp_all add: exCoinbaseUtxo_def)
  have eq: "exLedger\<lparr>currentHeight := 100\<rparr> = exLedger"
    by (simp add: exLedger_def)
  from maturity_gating [OF h1, where ks = "[exOpA, exOpB]" and w = exWallet
      and sched = exSched and update = exBlock and order = "[]" and low = 100 and high = 116
      and ?ks1.0 = "[]" and ?ks2.0 = "[exOpB]"] h2 h3 h4 h5 a m h1 c o u eq
  show ?thesis
    by (simp add: Let_def ListUnspent_def)
qed

text \<open>
  The claim as it was stated has the record counted at every height from \<open>M\<close> on. A
  locked record is not: here the maturity height and the current height are both 116.
\<close>

theorem locked_mature_output_not_counted:
  "utxos (exLedger\<lparr>currentHeight := 116, utxos := [exOpA \<mapsto> exCoinbaseUtxo\<lparr>isLocked := True\<rparr>]\<rparr>) exOpA
     = Some (exCoinbaseUtxo\<lparr>isLocked := True\<rparr>)
   \<and> sint (maturityHeight (exCoinbaseUtxo\<lparr>isLocked := True\<rparr>))
       \<le> sint (currentHeight (exLedger\<lparr>currentHeight := 116,
                  utxos := [exOpA \<mapsto> exCoinbaseUtxo\<lparr>isLocked := True\<rparr>]\<rparr>))
   \<and> fst (ListUnspent [exOpA]
        (exLedger\<lparr>currentHeight := 116, utxos := [exOpA \<mapsto> exCoinbaseUtxo\<lparr>isLocked := True\<rparr>]\<rparr>)) = []
   \<and> fst (GetBalance [exOpA]
        (exLedger\<lparr>currentHeight := 116, utxos := [exOpA \<mapsto> exCoinbaseUtxo\<lparr>isLocked := True\<rparr>]\<rparr>))
       = \<lparr>TotalSpendable = \<lparr>AtomsValue = 0\<rparr>\<rparr>"
  by (simp add: ListUnspent_def GetBalance_def exLedger_def exCoinbaseUtxo_def isMature_def)


subsection \<open>The indices of issued addresses\<close>

text \<open>
  A call of \<open>NewAddress\<close> fails and leaves the wallet, or registers the address at
  \<open>hdIndex\<close> and adds one to \<open>hdIndex\<close>. Over a sequence of calls the assigned indices are
  therefore consecutive in \<open>uint32\<close> arithmetic, and the registrations add up.
\<close>

lemma NewAddress_cases:
  "(\<exists>err. NewAddress ext w = (Inl err, w))
   \<or> (\<exists>a. NewAddress ext w = (Inr a, w\<lparr>addrs := (addrs w)(hdIndex w \<mapsto> a), hdIndex := hdIndex w + 1\<rparr>))"
  by (auto simp: NewAddress_def newAddress_def Let_def split: sum.splits option.splits)

lemma NewAddress_success:
  "NewAddress ext w = (Inr a, w') \<Longrightarrow>
     w' = w\<lparr>addrs := (addrs w)(hdIndex w \<mapsto> a), hdIndex := hdIndex w + 1\<rparr>"
  using NewAddress_cases [of ext w] by auto

lemma NewAddress_failure:
  "NewAddress ext w = (Inl e, w') \<Longrightarrow> w' = w"
  using NewAddress_cases [of ext w] by auto

lemma upt_shift: "map f [0..<Suc n] = f 0 # map (\<lambda>k. f (Suc k)) [0..<n]"
  by (simp add: upt_conv_Cons map_Suc_upt [symmetric] del: upt_Suc)

lemma NewAddresses_indices:
  "NewAddresses exts w = (issued, w') \<Longrightarrow>
     map fst issued = map (\<lambda>k. hdIndex w + of_nat k) [0..<length issued]
     \<and> hdIndex w' = hdIndex w + of_nat (length issued)
     \<and> addrs w' = addrs w ++ map_of (rev issued)"
proof (induction exts arbitrary: w issued w')
  case Nil
  then show ?case by simp
next
  case (Cons ext exts)
  from NewAddress_cases [of ext w] show ?case
  proof (elim disjE exE)
    fix err assume "NewAddress ext w = (Inl err, w)"
    with Cons.prems have "NewAddresses exts w = (issued, w')"
      by simp
    then show ?thesis by (rule Cons.IH)
  next
    fix a
    let ?w1 = "w\<lparr>addrs := (addrs w)(hdIndex w \<mapsto> a), hdIndex := hdIndex w + 1\<rparr>"
    assume s: "NewAddress ext w = (Inr a, ?w1)"
    obtain issued1 w1' where r: "NewAddresses exts ?w1 = (issued1, w1')"
      by (cases "NewAddresses exts ?w1")
    with s Cons.prems have i: "issued = (hdIndex w, a) # issued1" and w: "w' = w1'"
      by simp_all
    from Cons.IH [OF r] have
      ih: "map fst issued1 = map (\<lambda>k. hdIndex w + 1 + of_nat k) [0..<length issued1]"
        "hdIndex w1' = hdIndex w + 1 + of_nat (length issued1)"
        "addrs w1' = addrs ?w1 ++ map_of (rev issued1)"
      by (simp_all add: fun_upd_def)
    have "map (\<lambda>k. hdIndex w + of_nat k) [0..<Suc (length issued1)]
            = hdIndex w # map (\<lambda>k. hdIndex w + 1 + of_nat k) [0..<length issued1]"
      by (subst upt_shift) (simp add: ac_simps)
    with ih(1) i have "map fst issued = map (\<lambda>k. hdIndex w + of_nat k) [0..<length issued]"
      by (simp del: upt_Suc)
    moreover have "hdIndex w' = hdIndex w + of_nat (length issued)"
      using ih(2) i w by (simp add: ac_simps)
    moreover have "addrs w' = addrs w ++ map_of (rev issued)"
      using ih(3) i w by (simp add: map_add_def fun_eq_iff split: option.splits)
    ultimately show ?thesis by simp
  qed
qed

lemma unat_plus_of_nat:
  "unat (x :: uint32) + k < 2 ^ 32 \<Longrightarrow> unat (x + of_nat k) = unat x + k"
  by (simp add: unat_word_ariths unat_of_nat take_bit_nat_eq_self)

lemma consecutive_increasing:
  "unat (x :: uint32) + n \<le> 2 ^ 32 \<Longrightarrow> sorted_wrt (<) (map (\<lambda>k. x + of_nat k) [0..<n])"
  by (auto simp: sorted_wrt_map sorted_wrt_iff_nth_less word_less_nat_alt unat_plus_of_nat)


text \<open>
  Claim C7, as the code has it. A successful call registers the address at the next
  index and adds one to the index, in \<open>uint32\<close>. Over a sequence of calls whose successes
  do not take the index past \<open>2^32 - 1\<close>, the successful calls are assigned the
  consecutive indices from the wallet's next index on (from 0 for a wallet that starts
  at 0): the indices increase strictly, none is assigned twice, the next index has grown
  by the number of successes, and every issued address is registered at its index.
\<close>

theorem issued_indices_consecutive:
  assumes "NewAddresses exts wallet = (issued, wallet')"
    and "unat (hdIndex wallet) + length issued < 2 ^ 32"
  shows
    "map fst issued = map (\<lambda>k. hdIndex wallet + of_nat k) [0..<length issued]
     \<and> unat (hdIndex wallet') = unat (hdIndex wallet) + length issued
     \<and> sorted_wrt (<) (map fst issued) \<and> distinct (map fst issued)
     \<and> (\<forall>(i, a) \<in> set issued. addrs wallet' i = Some a)
     \<and> (\<forall>ext w a w'. NewAddress ext w = (Inr a, w') \<longrightarrow>
           w' = w\<lparr>addrs := (addrs w)(hdIndex w \<mapsto> a), hdIndex := hdIndex w + 1\<rparr>)"
proof -
  note n = NewAddresses_indices [OF assms(1)]
  from n have ix: "map fst issued = map (\<lambda>k. hdIndex wallet + of_nat k) [0..<length issued]"
    by simp
  from n assms(2) have next_index: "unat (hdIndex wallet') = unat (hdIndex wallet) + length issued"
    by (simp add: unat_plus_of_nat)
  from assms(2) have inc: "sorted_wrt (<) (map fst issued)"
    unfolding ix by (intro consecutive_increasing) simp
  then have dist: "distinct (map fst issued)"
    by (simp add: strict_sorted_iff)
  have reg: "addrs wallet' i = Some a" if "(i, a) \<in> set issued" for i a
  proof -
    from dist have "distinct (map fst (rev issued))"
      by (simp add: rev_map [symmetric])
    moreover from that have "(i, a) \<in> set (rev issued)"
      by simp
    ultimately have "map_of (rev issued) i = Some a"
      by (rule map_of_is_SomeI)
    with n show ?thesis
      by (simp add: map_add_Some_iff)
  qed
  from ix next_index inc dist reg NewAddress_success show ?thesis
    by blast
qed

text \<open>Three calls on the example wallet, the second rejected by the node: indices 2 and 3.\<close>

theorem issued_indices_consecutive_witness:
  "NewAddresses [exExt, exExt\<lparr>LoadTxFilter := (\<lambda>reload as. Some ''rejected'')\<rparr>, exExt] exWallet
     = ([(2, \<lparr>ScriptAddress = [7, 2]\<rparr>), (3, \<lparr>ScriptAddress = [7, 3]\<rparr>)],
        exWallet\<lparr>addrs := (addrs exWallet)(2 \<mapsto> \<lparr>ScriptAddress = [7, 2]\<rparr>,
                                               3 \<mapsto> \<lparr>ScriptAddress = [7, 3]\<rparr>),
                 hdIndex := 4\<rparr>)
   \<and> unat (hdIndex exWallet) + length [(2 :: uint32, \<lparr>ScriptAddress = [7, 2]\<rparr>), (3, \<lparr>ScriptAddress = [7, 3]\<rparr>)] < 2 ^ 32
   \<and> map fst [(2 :: uint32, \<lparr>ScriptAddress = [7, 2]\<rparr>), (3, \<lparr>ScriptAddress = [7, 3]\<rparr>)]
       = [hdIndex exWallet, hdIndex exWallet + 1]"
proof -
  let ?issued = "[(2 :: uint32, \<lparr>ScriptAddress = [7, 2]\<rparr>), (3, \<lparr>ScriptAddress = [7, 3]\<rparr>)]"
  let ?w = "exWallet\<lparr>addrs := (addrs exWallet)(2 \<mapsto> \<lparr>ScriptAddress = [7, 2]\<rparr>,
                                               3 \<mapsto> \<lparr>ScriptAddress = [7, 3]\<rparr>),
                 hdIndex := 4\<rparr>"
  have h1: "NewAddresses [exExt, exExt\<lparr>LoadTxFilter := (\<lambda>reload as. Some ''rejected'')\<rparr>, exExt] exWallet
              = (?issued, ?w)"
    by (simp add: NewAddress_def newAddress_def exExt_def exWallet_def Let_def)
  have h2: "unat (hdIndex exWallet) + length ?issued < 2 ^ 32"
    by (simp add: exWallet_def)
  have "[0..<2] = [0, 1]"
    by (simp add: upt_rec)
  with issued_indices_consecutive [OF h1 h2] h1 h2 show ?thesis
    by simp
qed

text \<open>
  The claim as it was stated has the index never decrease and never be reused, over any
  sequence of successful calls. At index \<open>2^32 - 1\<close> the increment wraps: the next index
  is 0, and the following call assigns index 0, which the wallet had issued before.
\<close>

theorem hdIndex_wraps_and_reuses:
  "fst (NewAddresses [exExt, exExt] exFullWallet)
     = [(0xFFFFFFFF, \<lparr>ScriptAddress = [7, 255]\<rparr>), (0, \<lparr>ScriptAddress = [7, 0]\<rparr>)]
   \<and> hdIndex exFullWallet = 0xFFFFFFFF
   \<and> hdIndex (snd (NewAddress exExt exFullWallet)) = 0
   \<and> addrs exFullWallet 0 = Some \<lparr>ScriptAddress = [7, 0]\<rparr>"
  by (simp add: NewAddress_def newAddress_def exExt_def exWallet_def exFullWallet_def Let_def)

text \<open>
  The wallet of this example is the one that \<open>2^32 - 1\<close> successful calls leave of a
  wallet that starts at index 0 without addresses.
\<close>

lemma NewAddresses_Cons:
  "snd (NewAddresses (x # xs) w) = snd (NewAddresses xs (snd (NewAddress x w)))"
  by (cases "NewAddress x w") (auto split: sum.splits prod.splits)

lemma NewAddresses_append:
  "snd (NewAddresses (xs @ ys) w) = snd (NewAddresses ys (snd (NewAddresses xs w)))"
proof (induction xs arbitrary: w)
  case Nil
  then show ?case by simp
next
  case (Cons x xs)
  have "snd (NewAddresses ((x # xs) @ ys) w)
          = snd (NewAddresses (xs @ ys) (snd (NewAddress x w)))"
    by (simp only: append_Cons NewAddresses_Cons)
  also have "\<dots> = snd (NewAddresses ys (snd (NewAddresses xs (snd (NewAddress x w)))))"
    by (rule Cons)
  also have "\<dots> = snd (NewAddresses ys (snd (NewAddresses (x # xs) w)))"
    by (simp only: NewAddresses_Cons)
  finally show ?case .
qed

lemma issued_from_start:
  assumes "n < 2 ^ 32"
  shows "snd (NewAddresses (replicate n exExt) (exWallet\<lparr>hdIndex := 0, addrs := Map.empty\<rparr>))
           = exWallet\<lparr>hdIndex := of_nat n,
                      addrs := (\<lambda>i. if unat i < n then Some \<lparr>ScriptAddress = [7, ucast i]\<rparr>
                                    else None)\<rparr>"
  using assms
proof (induction n)
  case 0
  then show ?case by simp
next
  case (Suc n)
  let ?w = "exWallet\<lparr>hdIndex := of_nat n,
              addrs := (\<lambda>i. if unat i < n then Some \<lparr>ScriptAddress = [7, ucast i]\<rparr> else None)\<rparr>"
  from Suc have ih: "snd (NewAddresses (replicate n exExt) (exWallet\<lparr>hdIndex := 0, addrs := Map.empty\<rparr>)) = ?w"
    by simp
  from Suc.prems have u: "unat (of_nat n :: uint32) = n"
    by (simp add: unat_of_nat take_bit_nat_eq_self)
  have "(\<lambda>i :: uint32. if unat i < Suc n then Some \<lparr>ScriptAddress = [7, ucast i]\<rparr> else None)
          = (\<lambda>i. if unat i < n then Some \<lparr>ScriptAddress = [7, ucast i]\<rparr> else None)
              (of_nat n \<mapsto> \<lparr>ScriptAddress = [7, ucast (of_nat n :: uint32)]\<rparr>)"
  proof (rule ext)
    fix i :: uint32
    have "i = of_nat n \<longleftrightarrow> unat i = n"
      using u by (auto simp: word_unat_eq_iff)
    then show "(if unat i < Suc n then Some \<lparr>ScriptAddress = [7, ucast i]\<rparr> else None)
          = ((\<lambda>i. if unat i < n then Some \<lparr>ScriptAddress = [7, ucast i]\<rparr> else None)
              (of_nat n \<mapsto> \<lparr>ScriptAddress = [7, ucast (of_nat n :: uint32)]\<rparr>)) i"
      by (auto simp: less_Suc_eq)
  qed
  then have step: "snd (NewAddresses [exExt] ?w)
          = exWallet\<lparr>hdIndex := of_nat (Suc n),
                      addrs := (\<lambda>i. if unat i < Suc n then Some \<lparr>ScriptAddress = [7, ucast i]\<rparr>
                                    else None)\<rparr>"
    by (simp add: NewAddress_def newAddress_def exExt_def exWallet_def Let_def add.commute)
  have r: "replicate (Suc n) exExt = replicate n exExt @ [exExt]"
    by (simp add: replicate_append_same)
  show ?case
    unfolding r NewAddresses_append ih by (rule step)
qed

lemma exFullWallet_reached:
  "exFullWallet
     = snd (NewAddresses (replicate (2 ^ 32 - 1) exExt) (exWallet\<lparr>hdIndex := 0, addrs := Map.empty\<rparr>))"
proof -
  have "(\<lambda>i :: uint32. if unat i < 2 ^ 32 - 1 then Some \<lparr>ScriptAddress = [7, ucast i]\<rparr> else None)
          = (\<lambda>i. if i = 0xFFFFFFFF then None else Some \<lparr>ScriptAddress = [7, ucast i]\<rparr>)"
  proof (rule ext)
    fix i :: uint32
    have "unat i < 2 ^ 32"
      using unsigned_less [of i, where 'a = nat] by simp
    moreover have "i = 0xFFFFFFFF \<longleftrightarrow> unat i = 2 ^ 32 - 1"
      by (simp add: word_unat_eq_iff)
    ultimately show "(if unat i < 2 ^ 32 - 1 then Some \<lparr>ScriptAddress = [7, ucast i]\<rparr> else None)
          = (if i = 0xFFFFFFFF then None else Some \<lparr>ScriptAddress = [7, ucast i]\<rparr>)"
      by auto
  qed
  moreover have "(of_nat (2 ^ 32 - 1) :: uint32) = 0xFFFFFFFF"
    by simp
  ultimately show ?thesis
    using issued_from_start [of "2 ^ 32 - 1"] by (simp add: exFullWallet_def)
qed

subsection \<open>The order of application\<close>

text \<open>
  The application of an update writes the height, the ledger and the journal. The
  decoding of a block reads the wallet's \<open>NewTxFromBytes\<close> only.
\<close>

lemma applyUpdate_frame:
  "\<exists>us j. applyUpdate sched w u = w\<lparr>currentHeight := blockHeight u, utxos := us, reorgJournal := j\<rparr>"
proof -
  let ?s = "evalTxnsFrom 0 sched (filteredTxns u)
              (w\<lparr>currentHeight := blockHeight u\<rparr>, \<lparr>utxosDestroyed = Map.empty, utxosCreated = []\<rparr>)"
  have "onlyUtxos (w\<lparr>currentHeight := blockHeight u\<rparr>) (fst ?s)"
    using evalTxnsFrom_frame [of "(w\<lparr>currentHeight := blockHeight u\<rparr>, \<lparr>utxosDestroyed = Map.empty, utxosCreated = []\<rparr>)"]
    by simp
  then have "fst ?s = w\<lparr>currentHeight := blockHeight u, utxos := utxos (fst ?s)\<rparr>"
    by (simp add: onlyUtxos_def)
  then have "applyUpdate sched w u
               = w\<lparr>currentHeight := blockHeight u, utxos := utxos (fst ?s),
                    reorgJournal := (reorgJournal (fst ?s))(blockHeight u \<mapsto> snd ?s)\<rparr>"
    by (simp add: applyUpdate_def Let_def split: prod.splits)
  then show ?thesis by blast
qed

lemma applyUpdate_fields:
  "currentHeight (applyUpdate sched w u) = blockHeight u"
  "chainUpdates (applyUpdate sched w u) = chainUpdates w"
  "NewTxFromBytes (applyUpdate sched w u) = NewTxFromBytes w"
  using applyUpdate_frame [of sched w u] by auto

lemma decodeBlock_cong:
  assumes "NewTxFromBytes w' = NewTxFromBytes w"
  shows "decodeBlock ext w' = decodeBlock ext w"
proof (intro ext)
  fix header rawTxns
  show "decodeBlock ext w' header rawTxns = decodeBlock ext w header rawTxns"
    unfolding decodeBlock_def assms ..
qed

lemma enqueued_cong:
  assumes "NewTxFromBytes w' = NewTxFromBytes w"
  shows "enqueued ext w' es = enqueued ext w es"
proof (induction es)
  case Nil
  then show ?case by simp
next
  case (Cons e es)
  with decodeBlock_cong [OF assms, of ext] show ?case
    by (cases e) (simp_all split: sum.splits)
qed

lemma decodable_cong:
  assumes "NewTxFromBytes w' = NewTxFromBytes w"
  shows "decodable ext w' es = decodable ext w es"
proof (induction es)
  case Nil
  then show ?case by simp
next
  case (Cons e es)
  with decodeBlock_cong [OF assms, of ext] show ?case
    by (cases e) (simp_all split: sum.splits)
qed

text \<open>
  Claim C3. In a run in which every block decodes and every signal follows its append,
  no step panics, and the heights that the consumer sets, one per received signal, are
  the heights of the updates in the order in which they were appended to the queue
  (after those the queue held at the start): as many of them as signals were received.
  The queue left holds the remaining updates, in the same order.
\<close>

theorem consumer_applies_in_enqueue_order:
  assumes "signalsFollowAppends (length (chainUpdates wallet)) events"
    and "decodable ext wallet events"
  shows "(\<exists>wallet'. run ext wallet events = Inr wallet'
           \<and> chainUpdates wallet'
               = drop (signals events) (chainUpdates wallet @ enqueued ext wallet events))
         \<and> heightsSet ext wallet events
             = take (signals events)
                 (map blockHeight (chainUpdates wallet @ enqueued ext wallet events))"
  using assms
proof (induction events arbitrary: wallet)
  case Nil
  then show ?case by simp
next
  case (Cons e es)
  show ?case
  proof (cases e)
    case (BlockConnected header rawTxns)
    with Cons.prems obtain update where d: "decodeBlock ext wallet header rawTxns = Inr update"
      by (auto split: sum.splits)
    let ?w = "wallet\<lparr>chainUpdates := chainUpdates wallet @ [update]\<rparr>"
    have n: "NewTxFromBytes ?w = NewTxFromBytes wallet"
      by simp
    from Cons.prems BlockConnected d
    have "signalsFollowAppends (length (chainUpdates ?w)) es" "decodable ext ?w es"
      by (simp_all add: decodable_cong [OF n])
    from Cons.IH [OF this] BlockConnected d show ?thesis
      by (simp add: IngestBlock_def enqueued_cong [OF n])
  next
    case (UpdateSignal sched)
    with Cons.prems obtain update queue where q: "chainUpdates wallet = update # queue"
      by (cases "chainUpdates wallet") auto
    let ?w = "applyUpdate sched (wallet\<lparr>chainUpdates := queue\<rparr>) update"
    have n: "NewTxFromBytes ?w = NewTxFromBytes wallet" and c: "chainUpdates ?w = queue"
      and h: "currentHeight ?w = blockHeight update"
      by (simp_all add: applyUpdate_fields)
    from Cons.prems UpdateSignal q
    have "signalsFollowAppends (length (chainUpdates ?w)) es" "decodable ext ?w es"
      by (simp_all add: decodable_cong [OF n] c)
    from Cons.IH [OF this] UpdateSignal q c h show ?thesis
      by (simp add: enqueued_cong [OF n])
  qed
qed


text \<open>The example run: the consumer sets the heights 5, 3 and 9, in this order.\<close>

theorem consumer_applies_in_enqueue_order_witness:
  "signalsFollowAppends (length (chainUpdates exWallet)) exEvents
   \<and> decodable exExt exWallet exEvents
   \<and> signals exEvents = 3
   \<and> map blockHeight (chainUpdates exWallet @ enqueued exExt exWallet exEvents) = [5, 3, 9]
   \<and> heightsSet exExt exWallet exEvents = [5, 3, 9]"
proof -
  have q: "chainUpdates exWallet = []"
    by (simp add: exWallet_def)
  have d: "decodeBlock exExt exWallet [5] [] = Inr \<lparr>blockHeight = 5, filteredTxns = []\<rparr>"
    "decodeBlock exExt exWallet [3] [] = Inr \<lparr>blockHeight = 3, filteredTxns = []\<rparr>"
    "decodeBlock exExt exWallet [9] [] = Inr \<lparr>blockHeight = 9, filteredTxns = []\<rparr>"
    by (simp_all add: decodeBlock_def exExt_def)
  have h1: "signalsFollowAppends (length (chainUpdates exWallet)) exEvents"
    by (simp add: q exEvents_def)
  have h2: "decodable exExt exWallet exEvents"
    by (simp add: exEvents_def d)
  have n: "signals exEvents = 3"
    by (simp add: exEvents_def)
  have e: "map blockHeight (chainUpdates exWallet @ enqueued exExt exWallet exEvents) = [5, 3, 9]"
    by (simp add: q exEvents_def d)
  from consumer_applies_in_enqueue_order [OF h1 h2]
  have "heightsSet exExt exWallet exEvents
          = take (signals exEvents)
              (map blockHeight (chainUpdates exWallet @ enqueued exExt exWallet exEvents))"
    by (rule conjunct2)
  then have "heightsSet exExt exWallet exEvents = [5, 3, 9]"
    unfolding n e by simp
  with h1 h2 n e show ?thesis
    by simp
qed


subsection \<open>Applying a block and unwinding it\<close>

lemma fold_delete:
  "fold (\<lambda>op us. us(op := None)) l m = (\<lambda>k. if k \<in> set l then None else m k)"
  by (induction l arbitrary: m) (auto simp: fun_eq_iff)

lemma evalOutput_created:
  "set (utxosCreated (snd s)) \<subseteq> set (utxosCreated (snd (evalOutput out i h cb ks s)))"
  by (cases s) (simp add: evalOutput_closed Let_def)

lemma evalOutputsFrom_created:
  "set (utxosCreated (snd s)) \<subseteq> set (utxosCreated (snd (evalOutputsFrom i ord outs h cb s)))"
proof (induction outs arbitrary: i s)
  case Nil
  then show ?case by simp
next
  case (Cons out outs)
  from evalOutput_created [of s out i h cb "ord i"]
    Cons [where i = "Suc i" and s = "evalOutput out i h cb (ord i) s"]
  show ?case by auto
qed

lemma evalInputs_created:
  "utxosCreated (snd (evalInputs ins s)) = utxosCreated (snd s)"
proof (induction ins arbitrary: s)
  case Nil
  then show ?case by (cases s) simp
next
  case (Cons txIn inputs)
  obtain wallet undo where s: "s = (wallet, undo)"
    by (cases s)
  show ?case
    unfolding s using Cons by (cases "utxos wallet (PreviousOutPoint txIn)") (simp_all add: Let_def)
qed

lemma evalTxnsFrom_created:
  "set (utxosCreated (snd s)) \<subseteq> set (utxosCreated (snd (evalTxnsFrom t sched txs s)))"
proof (induction txs arbitrary: t s)
  case Nil
  then show ?case by simp
next
  case (Cons tx txs)
  let ?s1 = "evalOutputs (sched t) (TxOuts (MsgTx tx)) (TxHash (MsgTx tx))
               (IsCoinBaseTx (fst s) (MsgTx tx)) s"
  let ?s2 = "evalInputs (TxIn (MsgTx tx)) ?s1"
  have "set (utxosCreated (snd s)) \<subseteq> set (utxosCreated (snd ?s2))"
    by (simp add: evalInputs_created evalOutputs_def evalOutputsFrom_created)
  with Cons [where s = ?s2 and t = "Suc t"] show ?case
    by (auto simp: Let_def)
qed

lemma undoInvD:
  "undoInv led s \<Longrightarrow>
     (case utxosDestroyed (snd s) op of
        None \<Rightarrow> op \<in> set (utxosCreated (snd s)) \<or> utxos (fst s) op = led op
      | Some old \<Rightarrow>
          led op = Some old
          \<and> (op \<in> set (utxosCreated (snd s)) \<or> utxos (fst s) op = None))"
  by (simp add: undoInv_def)

lemma undoInv_evalOutput:
  assumes "undoInv led s"
  shows "undoInv led (evalOutput out i h cb ks s)"
proof -
  obtain wallet undo where s: "s = (wallet, undo)"
    by (cases s)
  show ?thesis
    unfolding undoInv_def
  proof
    fix op
    from undoInvD [OF assms, of op]
    show "case utxosDestroyed (snd (evalOutput out i h cb ks s)) op of
            None \<Rightarrow> op \<in> set (utxosCreated (snd (evalOutput out i h cb ks s)))
                     \<or> utxos (fst (evalOutput out i h cb ks s)) op = led op
          | Some old \<Rightarrow>
              led op = Some old
              \<and> (op \<in> set (utxosCreated (snd (evalOutput out i h cb ks s)))
                 \<or> utxos (fst (evalOutput out i h cb ks s)) op = None)"
      by (auto simp: s evalOutput_closed Let_def split: option.splits)
  qed
qed

lemma undoInv_evalOutputsFrom:
  "undoInv led s \<Longrightarrow> undoInv led (evalOutputsFrom i ord outs h cb s)"
  by (induction outs arbitrary: i s) (simp_all add: undoInv_evalOutput)

lemma undoInv_evalInputs:
  assumes "undoInv led s"
    and "\<forall>txIn \<in> set ins. PreviousOutPoint txIn \<notin> set (utxosCreated (snd s))"
  shows "undoInv led (evalInputs ins s)"
  using assms
proof (induction ins arbitrary: s)
  case Nil
  then show ?case by (cases s) simp
next
  case (Cons txIn inputs)
  obtain wallet undo where s: "s = (wallet, undo)"
    by (cases s)
  show ?case
  proof (cases "utxos wallet (PreviousOutPoint txIn)")
    case None
    with Cons s show ?thesis by simp
  next
    case (Some old)
    let ?op = "PreviousOutPoint txIn"
    let ?s1 = "(wallet\<lparr>utxos := (utxos wallet)(?op := None)\<rparr>,
               undo\<lparr>utxosDestroyed := (utxosDestroyed undo)(?op \<mapsto> old)\<rparr>)"
    from Cons.prems(2) s have fresh: "?op \<notin> set (utxosCreated undo)"
      by simp
    from Cons.prems(1) s have inv: "undoInv led (wallet, undo)"
      by simp
    have old: "led ?op = Some old"
      using undoInvD [OF inv, of ?op] fresh Some
      by (auto split: option.splits)
    have "undoInv led ?s1"
      unfolding undoInv_def
    proof
      fix op
      from undoInvD [OF inv, of op] old
      show "case utxosDestroyed (snd ?s1) op of
              None \<Rightarrow> op \<in> set (utxosCreated (snd ?s1)) \<or> utxos (fst ?s1) op = led op
            | Some old \<Rightarrow>
                led op = Some old
                \<and> (op \<in> set (utxosCreated (snd ?s1)) \<or> utxos (fst ?s1) op = None)"
        by (auto split: option.splits)
    qed
    moreover from Cons.prems(2) s
    have "\<forall>txIn \<in> set inputs. PreviousOutPoint txIn \<notin> set (utxosCreated (snd ?s1))"
      by simp
    ultimately have "undoInv led (evalInputs inputs ?s1)"
      by (rule Cons.IH)
    with Some s show ?thesis
      by (simp add: Let_def)
  qed
qed

lemma undoInv_evalTxnsFrom:
  assumes "undoInv led s"
    and "\<forall>tx \<in> set txs. \<forall>txIn \<in> set (TxIn (MsgTx tx)).
           PreviousOutPoint txIn \<notin> set (utxosCreated (snd (evalTxnsFrom t sched txs s)))"
  shows "undoInv led (evalTxnsFrom t sched txs s)"
  using assms
proof (induction txs arbitrary: t s)
  case Nil
  then show ?case by simp
next
  case (Cons tx txs)
  let ?s1 = "evalOutputs (sched t) (TxOuts (MsgTx tx)) (TxHash (MsgTx tx))
               (IsCoinBaseTx (fst s) (MsgTx tx)) s"
  let ?s2 = "evalInputs (TxIn (MsgTx tx)) ?s1"
  have final: "evalTxnsFrom t sched (tx # txs) s = evalTxnsFrom (Suc t) sched txs ?s2"
    by (simp add: Let_def)
  have "set (utxosCreated (snd ?s1)) \<subseteq> set (utxosCreated (snd (evalTxnsFrom (Suc t) sched txs ?s2)))"
    using evalTxnsFrom_created [of ?s2 "Suc t" sched txs] by (simp add: evalInputs_created)
  with Cons.prems(2) final
  have "\<forall>txIn \<in> set (TxIn (MsgTx tx)). PreviousOutPoint txIn \<notin> set (utxosCreated (snd ?s1))"
    by auto
  moreover from Cons.prems(1) have "undoInv led ?s1"
    by (simp add: evalOutputs_def undoInv_evalOutputsFrom)
  ultimately have "undoInv led ?s2"
    by (intro undoInv_evalInputs)
  moreover from Cons.prems(2) final
  have "\<forall>tx \<in> set txs. \<forall>txIn \<in> set (TxIn (MsgTx tx)).
           PreviousOutPoint txIn \<notin> set (utxosCreated (snd (evalTxnsFrom (Suc t) sched txs ?s2)))"
    by simp
  ultimately show ?case
    unfolding final by (rule Cons.IH)
qed

text \<open>
  Claim C1, as the code has it. Let the outpoints that the undo entry of an applied
  update lists as created be outside the ledger before the update, and let no input of
  the update spend one of them. Then \<open>UnwindBlock\<close> for the update's height returns the
  wallet before the update with two differences: the journal has no entry for the
  height, and the current height is the update's. The ledger is the ledger before the
  update, and every other field is untouched.
\<close>

theorem apply_then_unwind:
  assumes "FromBytes ext header = Inr hdr"
    and "ucast (Height hdr) = blockHeight update"
    and "reorgJournal (applyUpdate sched wallet update) (blockHeight update) = Some undo"
    and "\<forall>op \<in> set (utxosCreated undo). utxos wallet op = None"
    and "\<forall>tx \<in> set (filteredTxns update). \<forall>txIn \<in> set (TxIn (MsgTx tx)).
           PreviousOutPoint txIn \<notin> set (utxosCreated undo)"
  shows "UnwindBlock ext (applyUpdate sched wallet update) header
           = Inr (wallet\<lparr>currentHeight := blockHeight update,
                          reorgJournal := (reorgJournal wallet)(blockHeight update := None)\<rparr>)"
proof -
  let ?start = "wallet\<lparr>currentHeight := blockHeight update\<rparr>"
  let ?init = "(?start, \<lparr>utxosDestroyed = Map.empty, utxosCreated = []\<rparr>)"
  let ?s = "evalTxnsFrom 0 sched (filteredTxns update) ?init"
  have app: "applyUpdate sched wallet update
               = (fst ?s)\<lparr>reorgJournal := (reorgJournal (fst ?s))(blockHeight update \<mapsto> snd ?s)\<rparr>"
    by (simp add: applyUpdate_def Let_def split: prod.splits)
  with assms(3) have undo: "snd ?s = undo"
    by simp
  have "onlyUtxos ?start (fst ?s)"
    using evalTxnsFrom_frame [of ?init 0 sched "filteredTxns update"] by simp
  then have frame: "fst ?s = wallet\<lparr>currentHeight := blockHeight update, utxos := utxos (fst ?s)\<rparr>"
    by (simp add: onlyUtxos_def)
  have "undoInv (utxos wallet) ?init"
    by (simp add: undoInv_def)
  moreover from assms(5) undo
  have "\<forall>tx \<in> set (filteredTxns update). \<forall>txIn \<in> set (TxIn (MsgTx tx)).
           PreviousOutPoint txIn \<notin> set (utxosCreated (snd ?s))"
    by simp
  ultimately have "undoInv (utxos wallet) ?s"
    by (rule undoInv_evalTxnsFrom)
  then have inv: "case utxosDestroyed undo op of
             None \<Rightarrow> op \<in> set (utxosCreated undo) \<or> utxos (fst ?s) op = utxos wallet op
           | Some old \<Rightarrow>
               utxos wallet op = Some old
               \<and> (op \<in> set (utxosCreated undo) \<or> utxos (fst ?s) op = None)" for op
    using undoInvD [of "utxos wallet" ?s op] undo by (auto split: option.splits)
  have led: "fold (\<lambda>op us. us(op := None)) (utxosCreated undo) (utxos (fst ?s)) ++ utxosDestroyed undo
               = utxos wallet"
  proof (rule ext)
    fix op
    from inv [of op] assms(4)
    show "(fold (\<lambda>op us. us(op := None)) (utxosCreated undo) (utxos (fst ?s)) ++ utxosDestroyed undo) op
            = utxos wallet op"
      by (auto simp: fold_delete map_add_def split: option.splits)
  qed
  have "UnwindBlock ext (applyUpdate sched wallet update) header
          = Inr ((applyUpdate sched wallet update)
              \<lparr>utxos := utxos wallet,
               reorgJournal := (reorgJournal (applyUpdate sched wallet update))(blockHeight update := None)\<rparr>)"
    using assms(1,2,3) led app by (simp add: UnwindBlock_def Let_def)
  also have "(applyUpdate sched wallet update)
              \<lparr>utxos := utxos wallet,
               reorgJournal := (reorgJournal (applyUpdate sched wallet update))(blockHeight update := None)\<rparr>
           = wallet\<lparr>currentHeight := blockHeight update,
                          reorgJournal := (reorgJournal wallet)(blockHeight update := None)\<rparr>"
    by (subst (1 2) app, subst (1 2) frame) simp
  finally show ?thesis .
qed


text \<open>
  The block of height 101 moves the coinbase output of the example ledger into its undo
  entry; unwinding height 101 gives the example ledger back, at height 101.
\<close>

theorem apply_then_unwind_witness:
  "FromBytes exExt [101] = Inr \<lparr>Height = 101\<rparr>
   \<and> reorgJournal (applyUpdate exSched exLedger exSpendBlock) 101
       = Some \<lparr>utxosDestroyed = [exOpA \<mapsto> exCoinbaseUtxo],
               utxosCreated = [\<lparr>Hash = [12], Index = 0\<rparr>]\<rparr>
   \<and> utxos (applyUpdate exSched exLedger exSpendBlock) exOpA = None
   \<and> UnwindBlock exExt (applyUpdate exSched exLedger exSpendBlock) [101]
       = Inr (exLedger\<lparr>currentHeight := 101\<rparr>)"
proof -
  let ?undo = "\<lparr>utxosDestroyed = [exOpA \<mapsto> exCoinbaseUtxo],
                utxosCreated = [\<lparr>Hash = [12], Index = 0\<rparr>]\<rparr>"
  have h1: "FromBytes exExt [101] = Inr \<lparr>Height = 101\<rparr>"
    by (simp add: exExt_def)
  have h2: "ucast (Height \<lparr>Height = 101\<rparr>) = blockHeight exSpendBlock"
    by (simp add: exSpendBlock_def)
  have h3: "reorgJournal (applyUpdate exSched exLedger exSpendBlock) (blockHeight exSpendBlock)
              = Some ?undo"
    by (simp add: applyUpdate_def evalOutputs_def Let_def exSched_def exLedger_def exWallet_def
        exSpendBlock_def exSpendTx_def exOpA_def exOpB_def)
  have h4: "\<forall>op \<in> set (utxosCreated ?undo). utxos exLedger op = None"
    by (simp add: exLedger_def exOpA_def exOpB_def)
  have h5: "\<forall>tx \<in> set (filteredTxns exSpendBlock). \<forall>txIn \<in> set (TxIn (MsgTx tx)).
              PreviousOutPoint txIn \<notin> set (utxosCreated ?undo)"
    by (simp add: exSpendBlock_def exSpendTx_def exOpA_def)
  have gone: "utxos (applyUpdate exSched exLedger exSpendBlock) exOpA = None"
    by (simp add: applyUpdate_def evalOutputs_def Let_def exSched_def exLedger_def exWallet_def
        exSpendBlock_def exSpendTx_def exOpA_def exOpB_def)
  have j: "exLedger\<lparr>currentHeight := blockHeight exSpendBlock,
             reorgJournal := (reorgJournal exLedger)(blockHeight exSpendBlock := None)\<rparr>
           = exLedger\<lparr>currentHeight := 101\<rparr>"
    by (simp add: exLedger_def exWallet_def exSpendBlock_def)
  from apply_then_unwind [OF h1 h2 h3 h4 h5] h1 h3 gone show ?thesis
    unfolding j by (simp add: exSpendBlock_def)
qed

text \<open>
  The claim as it was stated has the current height restored as well. \<open>UnwindBlock\<close>
  does not write it: after an empty block of height 1 is applied to the example wallet
  (at height 0) and unwound, the wallet is at height 1.
\<close>

theorem unwind_keeps_height:
  "UnwindBlock exExt (applyUpdate exSched exWallet \<lparr>blockHeight = 1, filteredTxns = []\<rparr>) [1]
     = Inr (exWallet\<lparr>currentHeight := 1\<rparr>)
   \<and> currentHeight exWallet = 0"
  by (simp add: UnwindBlock_def applyUpdate_def Let_def exExt_def exWallet_def)

text \<open>
  The theorem leaves out a block that spends an output it created itself. There the
  second loop of \<open>UnwindBlock\<close> puts back what the first has deleted: the output of the
  coinbase of the two-transaction block is in the ledger after the block is unwound,
  though it was not there before the block was applied.
\<close>

lemma unwind_after_spend_within_block:
  "utxos exWallet \<lparr>Hash = [13], Index = 0\<rparr> = None
   \<and> utxos (applyUpdate exSched exWallet exChainedBlock) \<lparr>Hash = [13], Index = 0\<rparr> = None
   \<and> UnwindBlock exExt (applyUpdate exSched exWallet exChainedBlock) [1]
       = Inr (exWallet\<lparr>currentHeight := 1,
                utxos := [\<lparr>Hash = [13], Index = 0\<rparr> \<mapsto>
                  \<lparr>value' = \<lparr>AtomsValue = 9\<rparr>, keyIndex = 0, maturityHeight = 17,
                   pkScript = [7, 0], isLocked = False\<rparr>]\<rparr>)"
  by (simp add: UnwindBlock_def applyUpdate_def evalOutputs_def Let_def exExt_def exWallet_def
      exSched_def exChainedBlock_def)


subsection \<open>An output that pays several addresses\<close>

text \<open>
  The evaluation of a list of outputs or of transactions is that of its first part
  followed by that of the rest.
\<close>

lemma count_list_replicate:
  "count_list (replicate n x) y = (if x = y then n else 0)"
  by (induction n) auto

lemma evalOutputsFrom_append:
  "evalOutputsFrom i ord (outs1 @ outs2) h cb s
     = evalOutputsFrom (i + length outs1) ord outs2 h cb (evalOutputsFrom i ord outs1 h cb s)"
  by (induction outs1 arbitrary: i s) simp_all

lemma evalTxnsFrom_append:
  "evalTxnsFrom t sched (txs1 @ txs2) s
     = evalTxnsFrom (t + length txs1) sched txs2 (evalTxnsFrom t sched txs1 s)"
  by (induction txs1 arbitrary: t s) (simp_all add: Let_def)

text \<open>What a step leaves at an outpoint that it neither creates nor spends.\<close>

lemma evalOutput_other:
  assumes "\<lparr>Hash = h, Index = of_nat i\<rparr> \<noteq> op"
  shows "utxos (fst (evalOutput out i h cb ks s)) op = utxos (fst s) op"
    and "count_list (utxosCreated (snd (evalOutput out i h cb ks s))) op
           = count_list (utxosCreated (snd s)) op"
  using assms
  by (cases s; simp add: evalOutput_closed Let_def count_list_replicate)+

lemma evalOutputsFrom_other:
  assumes "\<forall>j < length outs. \<lparr>Hash = h, Index = of_nat (i + j)\<rparr> \<noteq> op"
  shows "utxos (fst (evalOutputsFrom i ord outs h cb s)) op = utxos (fst s) op
     \<and> count_list (utxosCreated (snd (evalOutputsFrom i ord outs h cb s))) op
           = count_list (utxosCreated (snd s)) op"
  using assms
proof (induction outs arbitrary: i s)
  case Nil
  then show ?case by simp
next
  case (Cons out outs)
  from Cons.prems have here: "\<lparr>Hash = h, Index = of_nat i\<rparr> \<noteq> op"
    by auto
  from Cons.prems have "\<forall>j < length outs. \<lparr>Hash = h, Index = of_nat (Suc i + j)\<rparr> \<noteq> op"
    by auto
  from Cons.IH [OF this] evalOutput_other [OF here] show ?case
    by simp
qed

lemma evalInputs_other:
  assumes "op \<notin> PreviousOutPoint ` set ins"
  shows "utxos (fst (evalInputs ins s)) op = utxos (fst s) op"
  using assms
proof (induction ins arbitrary: s)
  case Nil
  then show ?case by (cases s) simp
next
  case (Cons txIn inputs)
  obtain wallet undo where s: "s = (wallet, undo)"
    by (cases s)
  from Cons.prems have ih: "utxos (fst (evalInputs inputs s')) op = utxos (fst s') op" for s'
    using Cons.IH by simp
  from Cons.prems have "PreviousOutPoint txIn \<noteq> op"
    by auto
  then show ?case
    unfolding s by (cases "utxos wallet (PreviousOutPoint txIn)") (simp_all add: Let_def ih)
qed

lemma evalTx_other:
  assumes "op \<notin> set (outPoints tx)" and "op \<notin> set (spent tx)"
  shows "utxos (fst (evalInputs (TxIn (MsgTx tx))
            (evalOutputs ord (TxOuts (MsgTx tx)) (TxHash (MsgTx tx)) cb s))) op = utxos (fst s) op
     \<and> count_list (utxosCreated (snd (evalInputs (TxIn (MsgTx tx))
            (evalOutputs ord (TxOuts (MsgTx tx)) (TxHash (MsgTx tx)) cb s)))) op
         = count_list (utxosCreated (snd s)) op"
proof -
  from assms(1) have "\<forall>j < length (TxOuts (MsgTx tx)).
      \<lparr>Hash = TxHash (MsgTx tx), Index = of_nat (0 + j)\<rparr> \<noteq> op"
    by (auto simp: outPoints_def outPoint_def)
  from evalOutputsFrom_other [OF this] assms(2) show ?thesis
    by (simp add: evalOutputs_def evalInputs_other evalInputs_created spent_def)
qed

lemma evalTxnsFrom_other:
  assumes "\<forall>tx \<in> set txs. op \<notin> set (outPoints tx) \<and> op \<notin> set (spent tx)"
  shows "utxos (fst (evalTxnsFrom t sched txs s)) op = utxos (fst s) op
     \<and> count_list (utxosCreated (snd (evalTxnsFrom t sched txs s))) op
         = count_list (utxosCreated (snd s)) op"
  using assms
proof (induction txs arbitrary: t s)
  case Nil
  then show ?case by simp
next
  case (Cons tx txs)
  let ?s1 = "evalInputs (TxIn (MsgTx tx))
               (evalOutputs (sched t) (TxOuts (MsgTx tx)) (TxHash (MsgTx tx))
                  (IsCoinBaseTx (fst s) (MsgTx tx)) s)"
  from Cons.prems have "op \<notin> set (outPoints tx)" "op \<notin> set (spent tx)"
    by simp_all
  note here = evalTx_other [OF this, of "sched t" "IsCoinBaseTx (fst s) (MsgTx tx)" s]
  from Cons.prems have "\<forall>tx \<in> set txs. op \<notin> set (outPoints tx) \<and> op \<notin> set (spent tx)"
    by simp
  from Cons.IH [OF this, of "Suc t" ?s1] here show ?case
    by (simp add: Let_def)
qed

text \<open>Only the creation of outpoints matters for the count.\<close>

lemma evalTxnsFrom_count:
  assumes "\<forall>tx \<in> set txs. op \<notin> set (outPoints tx)"
  shows "count_list (utxosCreated (snd (evalTxnsFrom t sched txs s))) op
         = count_list (utxosCreated (snd s)) op"
  using assms
proof (induction txs arbitrary: t s)
  case Nil
  then show ?case by simp
next
  case (Cons tx txs)
  let ?s0 = "evalOutputs (sched t) (TxOuts (MsgTx tx)) (TxHash (MsgTx tx))
                  (IsCoinBaseTx (fst s) (MsgTx tx)) s"
  let ?s1 = "evalInputs (TxIn (MsgTx tx)) ?s0"
  from Cons.prems have "\<forall>j < length (TxOuts (MsgTx tx)).
      \<lparr>Hash = TxHash (MsgTx tx), Index = of_nat (0 + j)\<rparr> \<noteq> op"
    by (auto simp: outPoints_def outPoint_def)
  from evalOutputsFrom_other [OF this]
  have "count_list (utxosCreated (snd ?s1)) op = count_list (utxosCreated (snd s)) op"
    by (simp add: evalOutputs_def evalInputs_created)
  moreover from Cons.prems have "\<forall>tx \<in> set txs. op \<notin> set (outPoints tx)"
    by simp
  from Cons.IH [OF this, of "Suc t" ?s1]
  have "count_list (utxosCreated (snd (evalTxnsFrom t sched (tx # txs) s))) op
          = count_list (utxosCreated (snd ?s1)) op"
    by (simp add: Let_def)
  ultimately show ?case by simp
qed


lemma paysTo_addrs: "addrs w' = addrs w \<Longrightarrow> paysTo w' out = paysTo w out"
  by (rule ext) (simp add: paysTo_def)

lemma matching_count:
  assumes "distinct ks" and "set ks = dom (addrs wallet)"
  shows "length (filter (paysTo wallet output) ks) = card {k. paysTo wallet output k}"
proof -
  have "{k. paysTo wallet output k} \<subseteq> dom (addrs wallet)"
    by (auto simp: paysTo_def split: option.splits)
  with assms(2) have "set (filter (paysTo wallet output) ks) = {k. paysTo wallet output k}"
    by auto
  moreover from assms(1) have "distinct (filter (paysTo wallet output) ks)"
    by simp
  ultimately show ?thesis
    using distinct_card by metis
qed

text \<open>
  Claim C10. Let an output of a transaction of an update have a script that contains the
  script hashes of more than one owned address, let no other output of the update have
  the same outpoint, and let no input of that transaction or of a later one spend it.
  Then the wallet after the application holds one record at the outpoint, whose
  \<open>keyIndex\<close> is a matching index (the last one of the order Go chose), and the undo
  entry stored for the update's height lists the outpoint as created once for every
  matching address. The entries are appended by the loop over the addresses, one after
  the other, whatever the wallet and the undo entry at that moment.
\<close>

theorem output_paying_several_addresses:
  assumes txs: "filteredTxns update = txs1 @ tx # txs2"
    and outs: "TxOuts (MsgTx tx) = outs1 @ output # outs2"
    and order: "distinct (sched (length txs1) (length outs1))"
      "set (sched (length txs1) (length outs1)) = dom (addrs wallet)"
    and several: "1 < card {k. paysTo wallet output k}"
    and others: "\<forall>tx' \<in> set txs1 \<union> set txs2. outPoint tx (length outs1) \<notin> set (outPoints tx')"
    and own: "\<forall>j < length (TxOuts (MsgTx tx)).
                j \<noteq> length outs1 \<longrightarrow> outPoint tx j \<noteq> outPoint tx (length outs1)"
    and unspent: "\<forall>tx' \<in> set (tx # txs2). outPoint tx (length outs1) \<notin> set (spent tx')"
  shows
    "(let op = outPoint tx (length outs1);
          ks = sched (length txs1) (length outs1);
          k = last (filter (paysTo wallet output) ks);
          wallet' = applyUpdate sched wallet update
      in paysTo wallet output k
         \<and> utxos wallet' op
             = Some \<lparr>value' = Amount output, keyIndex = k,
                     maturityHeight =
                       (if IsCoinBaseTx wallet (MsgTx tx)
                        then blockHeight update + CoinbaseMaturity (net wallet) else 0),
                     pkScript = PkScript output, isLocked = False\<rparr>
         \<and> (\<exists>undo. reorgJournal wallet' (blockHeight update) = Some undo
               \<and> count_list (utxosCreated undo) op = card {k. paysTo wallet output k})
         \<and> evalOutput output i txHash isCoinbase ks (wallet, undo0)
             = (wallet\<lparr>utxos := (utxos wallet)(\<lparr>Hash = txHash, Index = of_nat i\<rparr> \<mapsto>
                  \<lparr>value' = Amount output, keyIndex = k,
                   maturityHeight =
                     (if isCoinbase then currentHeight wallet + CoinbaseMaturity (net wallet)
                      else 0),
                   pkScript = PkScript output, isLocked = False\<rparr>)\<rparr>,
                undo0\<lparr>utxosCreated := utxosCreated undo0
                   @ replicate (card {k. paysTo wallet output k})
                       \<lparr>Hash = txHash, Index = of_nat i\<rparr>\<rparr>))"
proof -
  let ?op = "outPoint tx (length outs1)"
  let ?ks = "sched (length txs1) (length outs1)"
  let ?ms = "filter (paysTo wallet output) ?ks"
  let ?h = "TxHash (MsgTx tx)"
  let ?cb = "IsCoinBaseTx wallet (MsgTx tx)"
  let ?ord = "sched (length txs1)"
  let ?start = "wallet\<lparr>currentHeight := blockHeight update\<rparr>"
  let ?init = "(?start, \<lparr>utxosDestroyed = Map.empty, utxosCreated = []\<rparr>)"
  let ?rec = "\<lparr>value' = Amount output, keyIndex = last ?ms,
              maturityHeight = (if ?cb then blockHeight update + CoinbaseMaturity (net wallet) else 0),
              pkScript = PkScript output, isLocked = False\<rparr>"
  have len: "length ?ms = card {k. paysTo wallet output k}"
    using order by (rule matching_count)
  with several have ne: "?ms \<noteq> []"
    by auto
  then have "last ?ms \<in> set ?ms"
    by (rule last_in_set)
  then have pays: "paysTo wallet output (last ?ms)"
    by simp
  have loop: "evalOutput output i txHash isCoinbase ?ks (wallet, undo0)
             = (wallet\<lparr>utxos := (utxos wallet)(\<lparr>Hash = txHash, Index = of_nat i\<rparr> \<mapsto>
                  \<lparr>value' = Amount output, keyIndex = last ?ms,
                   maturityHeight =
                     (if isCoinbase then currentHeight wallet + CoinbaseMaturity (net wallet)
                      else 0),
                   pkScript = PkScript output, isLocked = False\<rparr>)\<rparr>,
                undo0\<lparr>utxosCreated := utxosCreated undo0
                   @ replicate (card {k. paysTo wallet output k})
                       \<lparr>Hash = txHash, Index = of_nat i\<rparr>\<rparr>)"
    using ne len by (simp add: evalOutput_closed Let_def)

  \<comment> \<open>the transactions before\<close>
  let ?sA = "evalTxnsFrom 0 sched txs1 ?init"
  from others have "\<forall>tx' \<in> set txs1. ?op \<notin> set (outPoints tx')"
    by simp
  from evalTxnsFrom_count [OF this, of 0 sched ?init]
  have cA: "count_list (utxosCreated (snd ?sA)) ?op = 0"
    by simp
  have fA: "onlyUtxos ?start (fst ?sA)"
    using evalTxnsFrom_frame [of ?init 0 sched txs1] by simp

  \<comment> \<open>the outputs before\<close>
  let ?sB = "evalOutputsFrom 0 ?ord outs1 ?h ?cb ?sA"
  from own outs have "\<forall>j < length outs1. \<lparr>Hash = ?h, Index = of_nat (0 + j)\<rparr> \<noteq> ?op"
    by (auto simp: outPoint_def)
  from evalOutputsFrom_other [OF this, of ?ord ?cb ?sA] cA
  have cB: "count_list (utxosCreated (snd ?sB)) ?op = 0"
    by simp
  have fB: "onlyUtxos ?start (fst ?sB)"
    using onlyUtxos_trans [OF fA evalOutputsFrom_frame [of ?sA 0 ?ord outs1 ?h ?cb]] .
  note fieldsB = onlyUtxos_fields [OF fB]

  \<comment> \<open>the output\<close>
  let ?sC = "evalOutput output (length outs1) ?h ?cb ?ks ?sB"
  obtain wB uB where sB: "?sB = (wB, uB)"
    by (cases ?sB)
  with fieldsB have wB: "addrs wB = addrs wallet" "currentHeight wB = blockHeight update"
    "net wB = net wallet"
    by simp_all
  have pB: "paysTo wB output = paysTo wallet output"
    using wB(1) by (rule paysTo_addrs)
  have C: "utxos (fst ?sC) ?op = Some ?rec
         \<and> count_list (utxosCreated (snd ?sC)) ?op = card {k. paysTo wallet output k}"
    using ne len cB wB
    by (simp add: sB evalOutput_closed pB Let_def
        outPoint_def count_list_replicate)

  \<comment> \<open>the outputs after, the inputs, and the transactions after\<close>
  let ?sD = "evalOutputsFrom (Suc (length outs1)) ?ord outs2 ?h ?cb ?sC"
  have "\<lparr>Hash = ?h, Index = of_nat (Suc (length outs1) + j)\<rparr> \<noteq> ?op"
    if "j < length outs2" for j
  proof -
    from that outs have "Suc (length outs1) + j < length (TxOuts (MsgTx tx))"
      by simp
    moreover have "Suc (length outs1) + j \<noteq> length outs1"
      by simp
    ultimately have "outPoint tx (Suc (length outs1) + j) \<noteq> ?op"
      using own by blast
    then show ?thesis
      unfolding outPoint_def .
  qed
  then have "\<forall>j < length outs2. \<lparr>Hash = ?h, Index = of_nat (Suc (length outs1) + j)\<rparr> \<noteq> ?op"
    by blast
  from evalOutputsFrom_other [OF this, of ?ord ?cb ?sC] C
  have D: "utxos (fst ?sD) ?op = Some ?rec
         \<and> count_list (utxosCreated (snd ?sD)) ?op = card {k. paysTo wallet output k}"
    by simp
  have outsAll: "evalOutputs ?ord (TxOuts (MsgTx tx)) ?h ?cb ?sA = ?sD"
    unfolding evalOutputs_def outs
    by (simp add: evalOutputsFrom_append)
  let ?sE = "evalInputs (TxIn (MsgTx tx)) ?sD"
  from unspent have "?op \<notin> PreviousOutPoint ` set (TxIn (MsgTx tx))"
    by (simp add: spent_def)
  from evalInputs_other [OF this, of ?sD] D
  have E: "utxos (fst ?sE) ?op = Some ?rec
         \<and> count_list (utxosCreated (snd ?sE)) ?op = card {k. paysTo wallet output k}"
    by (simp add: evalInputs_created)
  let ?sF = "evalTxnsFrom (Suc (length txs1)) sched txs2 ?sE"
  from others unspent
  have "\<forall>tx' \<in> set txs2. ?op \<notin> set (outPoints tx') \<and> ?op \<notin> set (spent tx')"
    by simp
  from evalTxnsFrom_other [OF this, of "Suc (length txs1)" sched ?sE] E
  have F: "utxos (fst ?sF) ?op = Some ?rec
         \<and> count_list (utxosCreated (snd ?sF)) ?op = card {k. paysTo wallet output k}"
    by simp
  have cbA: "IsCoinBaseTx (fst ?sA) (MsgTx tx) = ?cb"
    using onlyUtxos_fields(4) [OF fA] by simp
  have whole: "evalTxnsFrom 0 sched (filteredTxns update) ?init = ?sF"
    unfolding txs
    by (simp add: evalTxnsFrom_append Let_def cbA outsAll)
  have app: "applyUpdate sched wallet update
               = (fst ?sF)\<lparr>reorgJournal := (reorgJournal (fst ?sF))(blockHeight update \<mapsto> snd ?sF)\<rparr>"
    unfolding applyUpdate_def whole Let_def by (simp split: prod.splits)
  from F have "utxos (applyUpdate sched wallet update) ?op = Some ?rec"
    and "\<exists>undo. reorgJournal (applyUpdate sched wallet update) (blockHeight update) = Some undo
               \<and> count_list (utxosCreated undo) ?op = card {k. paysTo wallet output k}"
    unfolding app by simp_all
  with pays loop show ?thesis
    unfolding Let_def by blast
qed


text \<open>
  The second output of the coinbase of the example block pays both addresses of the
  example wallet: the ledger has one record for it, with key index 1, and the undo entry
  of height 1 lists its outpoint twice, before that of the third output.
\<close>

theorem output_paying_several_addresses_witness:
  "filteredTxns exSharedBlock = [] @ exSharedTx # []
   \<and> TxOuts (MsgTx exSharedTx)
       = [\<lparr>PkScript = [9], Amount = \<lparr>AtomsValue = 1\<rparr>\<rparr>] @ exOutput
         # [\<lparr>PkScript = [7, 0], Amount = \<lparr>AtomsValue = 2\<rparr>\<rparr>]
   \<and> card {k. paysTo exWallet exOutput k} = 2
   \<and> utxos (applyUpdate exSched exWallet exSharedBlock) \<lparr>Hash = [10], Index = 1\<rparr>
       = Some \<lparr>value' = \<lparr>AtomsValue = 50\<rparr>, keyIndex = 1, maturityHeight = 17,
               pkScript = [7, 0, 7, 1], isLocked = False\<rparr>
   \<and> map_option utxosCreated (reorgJournal (applyUpdate exSched exWallet exSharedBlock) 1)
       = Some [\<lparr>Hash = [10], Index = 1\<rparr>, \<lparr>Hash = [10], Index = 1\<rparr>,
               \<lparr>Hash = [10], Index = 2\<rparr>]"
proof -
  let ?out0 = "\<lparr>PkScript = [9], Amount = \<lparr>AtomsValue = 1\<rparr>\<rparr>"
  let ?out2 = "\<lparr>PkScript = [7, 0], Amount = \<lparr>AtomsValue = 2\<rparr>\<rparr>"
  have h1: "filteredTxns exSharedBlock = [] @ exSharedTx # []"
    by (simp add: exSharedBlock_def)
  have h2: "TxOuts (MsgTx exSharedTx) = [?out0] @ exOutput # [?out2]"
    by (simp add: exSharedTx_def)
  have h3: "distinct (exSched (length ([] :: Tx list)) (length [?out0]))"
    by (simp add: exSched_def)
  have h4: "set (exSched (length ([] :: Tx list)) (length [?out0])) = dom (addrs exWallet)"
    by (auto simp: exSched_def exWallet_def split: if_splits)
  have m: "{k. paysTo exWallet exOutput k} = {0, 1}"
    by (auto simp: paysTo_def exWallet_def exOutput_def split: if_splits)
  then have c: "card {k. paysTo exWallet exOutput k} = 2"
    by simp
  then have h5: "1 < card {k. paysTo exWallet exOutput k}"
    by simp
  have h6: "\<forall>tx' \<in> set [] \<union> set []. outPoint exSharedTx (length [?out0]) \<notin> set (outPoints tx')"
    by simp
  have h7: "\<forall>j < length (TxOuts (MsgTx exSharedTx)).
              j \<noteq> length [?out0] \<longrightarrow> outPoint exSharedTx j \<noteq> outPoint exSharedTx (length [?out0])"
    by (auto simp: exSharedTx_def outPoint_def less_Suc_eq)
  have h8: "\<forall>tx' \<in> set (exSharedTx # []). outPoint exSharedTx (length [?out0]) \<notin> set (spent tx')"
    by (simp add: spent_def exSharedTx_def)
  have f: "filter (paysTo exWallet exOutput) [0, 1] = [0, 1]"
    using m by auto
  have j: "map_option utxosCreated (reorgJournal (applyUpdate exSched exWallet exSharedBlock) 1)
       = Some [\<lparr>Hash = [10], Index = 1\<rparr>, \<lparr>Hash = [10], Index = 1\<rparr>,
               \<lparr>Hash = [10], Index = 2\<rparr>]"
    by (simp add: applyUpdate_def evalOutputs_def Let_def exSched_def exWallet_def
        exSharedBlock_def exSharedTx_def exOutput_def)
  from output_paying_several_addresses [where update = exSharedBlock and ?txs1.0 = "[]" and tx = exSharedTx
      and ?txs2.0 = "[]" and ?outs1.0 = "[?out0]" and ?output = exOutput and ?outs2.0 = "[?out2]"
      and sched = exSched and wallet = exWallet, OF h1 h2 h3 h4 h5 h6 h7 h8]
    h1 h2 c j f
  show ?thesis
    by (simp add: Let_def outPoint_def exSched_def exSharedTx_def exSharedBlock_def exOutput_def
        exWallet_def)
qed


end
